theory Spec2Isabelle
  imports Complex_Main "HOL-Library.AList" "HOL-Library.Multiset"
begin

section \<open>Shared data model\<close>

text \<open>
  Exceptions of the TypeScript sources, as values. \<open>TypeError\<close> is the error the
  JavaScript runtime raises on a property access on \<open>undefined\<close> or \<open>null\<close> and on
  iterating a value that is not iterable.
\<close>

datatype json =
    JUndefined
  | JNull
  | JBool bool
  | JNum real
  | JStr string
  | JArr "json list"
  | JObj "(string \<times> json) list"

datatype error =
    TypeError
  | NotSupportedFunctionException
  | NotYetImplementedException
  | IllegalArgumentException string json
  | ConfigException string

text \<open>
  A chromosome is an object: \<open>ref\<close> is its identity (two chromosome objects with the
  same genes are different objects), \<open>genes\<close> its gene list. Chromosomes are never
  mutated after construction, so HOL equality on the record is the \<open>===\<close> of the
  source, which is also the key equality of a JavaScript \<open>Map<C, ...>\<close>.
\<close>

record 'g Chromosome =
  ref :: nat
  genes :: "'g list"

definition getLength :: "'g Chromosome \<Rightarrow> nat" where
  "getLength c = length (genes c)"

text \<open>The bit string chromosome with identity \<open>r\<close> and genes \<open>gs\<close>.\<close>

definition bits :: "nat \<Rightarrow> bool list \<Rightarrow> bool Chromosome" where
  "bits r gs = \<lparr> ref = r, genes = gs \<rparr>"

text \<open>
  The \<open>FitnessFunction\<close> interface (its declaration is not among the sources): the
  methods the algorithms call on it. \<open>number\<close> is modelled as \<open>real\<close>.
\<close>

record 'g FitnessFunction =
  getFitness :: "'g Chromosome \<Rightarrow> real"
  isOptimal :: "real \<Rightarrow> bool"
  compare :: "real \<Rightarrow> real \<Rightarrow> real"
  isCovered :: "'g Chromosome \<Rightarrow> bool"

text \<open>
  A JavaScript \<open>Map\<close> iterates in insertion order: an association list, read with
  \<open>map_of\<close> and written with \<open>AList.update\<close>, which overwrites in place and appends a
  new key at the end, as \<open>Map.set\<close> does.
\<close>

type_synonym ('k, 'v) js_map = "('k \<times> 'v) list"

definition has :: "('k, 'v) js_map \<Rightarrow> 'k \<Rightarrow> bool" where
  "has m k = (map_of m k \<noteq> None)"

definition keys :: "('k, 'v) js_map \<Rightarrow> 'k list" where
  "keys m = map fst m"

definition values_of :: "('k, 'v) js_map \<Rightarrow> 'v list" where
  "values_of m = map snd m"

section \<open>SearchAlgorithmType and WhiskerSearchConfiguration.getAlgorithm\<close>

datatype SearchAlgorithmType = RANDOM | MOSA | MIO | ONE_PLUS_ONE

text \<open>
  Member access \<open>SearchAlgorithmType.NAME\<close> on the object the enum compiles to: a
  declared member, or \<open>undefined\<close> (\<open>None\<close>) for a name the enum does not declare.
\<close>

definition SearchAlgorithmType_member :: "string \<Rightarrow> SearchAlgorithmType option" where
  "SearchAlgorithmType_member name =
     (if name = ''RANDOM'' then Some RANDOM
      else if name = ''MOSA'' then Some MOSA
      else if name = ''MIO'' then Some MIO
      else if name = ''ONE_PLUS_ONE'' then Some ONE_PLUS_ONE
      else None)"

text \<open>\<open>this.dict[key]\<close> on the configuration record: \<open>undefined\<close> for a missing key.\<close>

definition dict_get :: "(string \<times> json) list \<Rightarrow> string \<Rightarrow> json" where
  "dict_get dict key = (case map_of dict key of Some v \<Rightarrow> v | None \<Rightarrow> JUndefined)"

text \<open>
  The conversion of a value to a string, as \<open>Array.prototype.join\<close> converts an element
  (\<open>undefined\<close> and \<open>null\<close> give the empty string there) and as \<open>+\<close> and \<open>==\<close> convert an
  array or an object. An object of a configuration holds no function, so an object
  with an own property \<open>toString\<close> has no callable \<open>toString\<close> and no \<open>valueOf\<close> that
  returns a primitive: converting it throws a TypeError; any other object gives
  \<open>[object Object]\<close>. An array is joined by commas, its elements converted from left to
  right. The decimal form of a number is not modelled (\<open>None\<close>): it holds a digit or is
  \<open>NaN\<close> or \<open>Infinity\<close>, so a string it is part of is none of the literals of the
  configuration.
\<close>

fun array_toString :: "json \<Rightarrow> error + string option"
  and array_join :: "json list \<Rightarrow> error + string option" where
  "array_toString JUndefined = Inr (Some [])"
| "array_toString JNull = Inr (Some [])"
| "array_toString (JBool b) = Inr (Some (if b then ''true'' else ''false''))"
| "array_toString (JNum n) = Inr None"
| "array_toString (JStr s) = Inr (Some s)"
| "array_toString (JArr xs) = array_join xs"
| "array_toString (JObj kvs) =
     (if map_of kvs ''toString'' \<noteq> None then Inl TypeError else Inr (Some ''[object Object]''))"
| "array_join [] = Inr (Some [])"
| "array_join [x] = array_toString x"
| "array_join (x # y # ys) =
     (case array_toString x of
        Inl e \<Rightarrow> Inl e
      | Inr s \<Rightarrow>
          (case array_join (y # ys) of
             Inl e \<Rightarrow> Inl e
           | Inr t \<Rightarrow> Inr (case s of
                            None \<Rightarrow> None
                          | Some s' \<Rightarrow> (case t of None \<Rightarrow> None | Some t' \<Rightarrow> Some (s' @ '','' @ t')))))"

text \<open>
  \<open>getAlgorithm\<close>: a \<open>switch\<close> compares with \<open>===\<close>, so only a string value can match
  a case label. The \<open>default\<close> label builds its message by \<open>+\<close>, which converts the value
  to a string and throws where that conversion does; the exception carries the message
  prefix and the value.
\<close>

definition getAlgorithm :: "(string \<times> json) list \<Rightarrow> error + SearchAlgorithmType option" where
  "getAlgorithm dict =
     (let a = dict_get dict ''algorithm'' in
      if a = JStr ''random'' then Inr (SearchAlgorithmType_member ''RANDOM'')
      else if a = JStr ''one-plus-one'' then Inr (SearchAlgorithmType_member ''ONE_PLUS_ONE'')
      else if a = JStr ''simplega'' then Inr (SearchAlgorithmType_member ''SIMPLEGA'')
      else if a = JStr ''mosa'' then Inr (SearchAlgorithmType_member ''MOSA'')
      else if a = JStr ''mio'' then Inr (SearchAlgorithmType_member ''MIO'')
      else (case array_toString a of
              Inl e \<Rightarrow> Inl e
            | Inr message \<Rightarrow>
                Inl (IllegalArgumentException ''Invalid configuration. Unknown algorithm: '' a)))"

subsection \<open>The operators, the chromosome generator and the fitness function type\<close>

text \<open>
  Sequencing of evaluations that may throw: the first error ends the evaluation.
\<close>

definition andThen :: "error + 'a \<Rightarrow> ('a \<Rightarrow> error + 'b) \<Rightarrow> error + 'b" where
  "andThen m f = (case m of Inl e \<Rightarrow> Inl e | Inr x \<Rightarrow> f x)"

text \<open>
  The property access \<open>v[key]\<close>: a TypeError on \<open>undefined\<close> and \<open>null\<close>, the stored
  value or \<open>undefined\<close> on an object, and \<open>undefined\<close> on the other values (none of
  the keys the configuration reads is a property of a string, number, boolean or
  array).
\<close>

fun property :: "json \<Rightarrow> string \<Rightarrow> error + json" where
  "property JUndefined key = Inl TypeError"
| "property JNull key = Inl TypeError"
| "property (JObj kvs) key = Inr (case map_of kvs key of Some v \<Rightarrow> v | None \<Rightarrow> JUndefined)"
| "property v key = Inr JUndefined"

text \<open>
  The objects the getters construct; their classes are not among the sources, and each
  is kept as the constructor call with its arguments. \<open>as number\<close> is erased at run
  time, so an argument is whatever value the dictionary holds.
\<close>

datatype Mutation =
    BitflipMutation
  | VariableLengthMutation json json json json
  | IntegerListMutation json json

datatype Crossover = SinglePointRelativeCrossover | SinglePointCrossover

datatype Selection = TournamentSelection json | RankSelection

text \<open>
  Modelled from the spec: the enum \<open>FitnessFunctionType\<close>, whose declaration is missing;
  the spec lists the types \<open>statement\<close>, \<open>one-max\<close> and \<open>single-bit\<close>.
\<close>

datatype FitnessFunctionType = STATEMENT | ONE_MAX | SINGLE_BIT

datatype StoppingCondition =
    FixedIterationsStoppingCondition json
  | FixedTimeStoppingCondtion json
  | OptimalSolutionStoppingCondition
  | OneOfStoppingCondition "StoppingCondition list"

text \<open>
  \<open>SearchAlgorithmProperties\<close>, whose class is not among the sources: the values its
  constructor and its setters receive.
\<close>

record SearchAlgorithmProperties =
  properties_populationSize :: json
  properties_chromosomeLength :: json
  properties_mutationProbablity :: json
  properties_crossoverProbability :: json
  properties_maxMutationCounter :: "json \<times> json"
  properties_selectionProbabilities :: "json \<times> json"
  properties_maxArchiveSizes :: "json \<times> json"
  properties_startOfFocusedPhase :: json
  properties_stoppingCondition :: StoppingCondition
  properties_intRange :: "(json \<times> json) option"

datatype ChromosomeGenerator =
    BitstringChromosomeGenerator SearchAlgorithmProperties Mutation Crossover
  | IntegerListChromosomeGenerator SearchAlgorithmProperties Mutation Crossover
  | VariableLengthTestChromosomeGenerator SearchAlgorithmProperties Mutation Crossover json
  | TestChromosomeGenerator SearchAlgorithmProperties Mutation Crossover

text \<open>
  \<open>_getStoppingCondition\<close> compares with \<open>==\<close>. Against a string literal, \<open>==\<close> holds
  for the same string, for an array whose elements, converted to strings and joined by
  commas, give the literal, and for an object whose string form is the literal; it
  converts an array or object to a string first, which may throw. A number, a boolean,
  \<open>undefined\<close> and \<open>null\<close> equal none of the literals compared here.
\<close>

definition loose_equals :: "json \<Rightarrow> string \<Rightarrow> error + bool" where
  "loose_equals v literal =
     (case v of
        JStr s \<Rightarrow> Inr (s = literal)
      | JArr xs \<Rightarrow> (case array_join xs of Inl e \<Rightarrow> Inl e | Inr r \<Rightarrow> Inr (r = Some literal))
      | JObj kvs \<Rightarrow> (case array_toString (JObj kvs) of
                      Inl e \<Rightarrow> Inl e
                    | Inr r \<Rightarrow> Inr (r = Some literal))
      | _ \<Rightarrow> Inr False)"

text \<open>
  \<open>_getStoppingCondition\<close>, recursive through the \<open>for\<close> loop over the conditions of
  \<open>one-of\<close> (\<open>getStoppingCondition_each\<close>). The loop iterates an array; it iterates a
  string by its characters, and the recursive call on a one-character string throws
  (its \<open>type\<close> is \<open>undefined\<close>); any other value is not iterable.
\<close>

lemma size_map_of:
  "map_of kvs key = Some v \<Longrightarrow> size v < size (JObj kvs)"
  by (induction kvs) (auto split: if_splits)

function getStoppingCondition :: "json \<Rightarrow> error + StoppingCondition"
  and getStoppingCondition_each :: "json list \<Rightarrow> error + StoppingCondition list" where
  "getStoppingCondition stoppingCondition =
     (case property stoppingCondition ''type'' of
        Inl e \<Rightarrow> Inl e
      | Inr stoppingCond \<Rightarrow>
          (case loose_equals stoppingCond ''fixed-iteration'' of
             Inl e \<Rightarrow> Inl e
           | Inr fixedIteration \<Rightarrow>
               if fixedIteration
               then andThen (property stoppingCondition ''iterations'')
                      (\<lambda>v. Inr (FixedIterationsStoppingCondition v))
               else
          (case loose_equals stoppingCond ''fixed-time'' of
             Inl e \<Rightarrow> Inl e
           | Inr fixedTime \<Rightarrow>
               if fixedTime
               then andThen (property stoppingCondition ''duration'')
                      (\<lambda>v. Inr (FixedTimeStoppingCondtion v))
               else
          (case loose_equals stoppingCond ''optimal'' of
             Inl e \<Rightarrow> Inl e
           | Inr optimal \<Rightarrow>
               if optimal then Inr OptimalSolutionStoppingCondition
               else
          (case loose_equals stoppingCond ''one-of'' of
             Inl e \<Rightarrow> Inl e
           | Inr oneOf \<Rightarrow>
               if oneOf
               then (case property stoppingCondition ''conditions'' of
                       Inl e \<Rightarrow> Inl e
                     | Inr (JArr conditions) \<Rightarrow>
                         (case getStoppingCondition_each conditions of
                            Inl e \<Rightarrow> Inl e
                          | Inr l \<Rightarrow> Inr (OneOfStoppingCondition l))
                     | Inr (JStr s) \<Rightarrow>
                         if s = [] then Inr (OneOfStoppingCondition [])
                         else Inl (ConfigException ''No stopping condition given'')
                     | Inr _ \<Rightarrow> Inl TypeError)
               else Inl (ConfigException ''No stopping condition given''))))))"
| "getStoppingCondition_each [] = Inr []"
| "getStoppingCondition_each (c # rest) =
     (case getStoppingCondition c of
        Inl e \<Rightarrow> Inl e
      | Inr x \<Rightarrow> (case getStoppingCondition_each rest of
                    Inl e \<Rightarrow> Inl e
                  | Inr l \<Rightarrow> Inr (x # l)))"
  by pat_completeness auto
termination
proof (relation "measure (\<lambda>a. case a of Inl sc \<Rightarrow> size sc | Inr cs \<Rightarrow> size_list size cs)",
    goal_cases)
  case 1
  show ?case by simp
next
  case (2 sc stoppingCond fixedIteration fixedTime optimal oneOf v conditions)
  then obtain kvs where sc: "sc = JObj kvs" and c: "map_of kvs ''conditions'' = Some (JArr conditions)"
    by (cases sc) (auto split: option.splits)
  from size_map_of [OF c] show ?case by (simp add: sc)
next
  case 3
  then show ?case by simp
next
  case 4
  then show ?case by simp
qed

definition getSearchAlgorithmProperties ::
  "(string \<times> json) list \<Rightarrow> error + SearchAlgorithmProperties" where
  "getSearchAlgorithmProperties dict =
     (let populationSize = dict_get dict ''population-size'';
          chromosomeLength = dict_get dict ''chromosome-length''
      in andThen (property (dict_get dict ''crossover'') ''probability'') (\<lambda>crossoverProbability.
         andThen (property (dict_get dict ''mutation'') ''probability'') (\<lambda>mutationProbability.
         andThen (property (dict_get dict ''mutation'') ''maxMutationCountStart'') (\<lambda>mutationStart.
         andThen (property (dict_get dict ''mutation'') ''maxMutationCountFocusedPhase'') (\<lambda>mutationFocused.
         andThen (property (dict_get dict ''selection'') ''randomSelectionProbabilityStart'') (\<lambda>selectionStart.
         andThen (property (dict_get dict ''selection'') ''randomSelectionProbabilityFocusedPhase'') (\<lambda>selectionFocused.
         andThen (property (dict_get dict ''archive'') ''maxArchiveSizeStart'') (\<lambda>archiveStart.
         andThen (property (dict_get dict ''archive'') ''maxArchiveSizeFocusedPhase'') (\<lambda>archiveFocused.
         andThen (getStoppingCondition (dict_get dict ''stopping-condition'')) (\<lambda>stopping.
         andThen (if map_of dict ''integerRange'' \<noteq> None
                  then andThen (property (dict_get dict ''integerRange'') ''min'') (\<lambda>mn.
                       andThen (property (dict_get dict ''integerRange'') ''max'') (\<lambda>mx.
                       Inr (Some (mn, mx))))
                  else Inr None) (\<lambda>range.
         Inr \<lparr> properties_populationSize = populationSize,
               properties_chromosomeLength = chromosomeLength,
               properties_mutationProbablity = mutationProbability,
               properties_crossoverProbability = crossoverProbability,
               properties_maxMutationCounter = (mutationStart, mutationFocused),
               properties_selectionProbabilities = (selectionStart, selectionFocused),
               properties_maxArchiveSizes = (archiveStart, archiveFocused),
               properties_startOfFocusedPhase = dict_get dict ''startOfFocusedPhase'',
               properties_stoppingCondition = stopping,
               properties_intRange = range \<rparr>)))))))))))"

text \<open>
  \<open>_getMutationOperator\<close>, \<open>_getCrossoverOperator\<close>, \<open>getSelectionOperator\<close>,
  \<open>getChromosomeGenerator\<close> and \<open>getFitnessFunctionType\<close>: a \<open>switch\<close> compares with
  \<open>===\<close>, and the \<open>default\<close> label takes every value no \<open>case\<close> matches. Every case
  of \<open>getChromosomeGenerator\<close> evaluates the same three arguments in the same order.
\<close>

definition getMutationOperator :: "(string \<times> json) list \<Rightarrow> error + Mutation" where
  "getMutationOperator dict =
     andThen (property (dict_get dict ''mutation'') ''operator'') (\<lambda>operator.
       if operator = JStr ''bitflip'' then Inr BitflipMutation
       else if operator = JStr ''variablelength''
       then andThen (property (dict_get dict ''integerRange'') ''min'') (\<lambda>mn.
            andThen (property (dict_get dict ''integerRange'') ''max'') (\<lambda>mx.
            andThen (property (dict_get dict ''mutation'') ''alpha'') (\<lambda>alpha.
            Inr (VariableLengthMutation mn mx (dict_get dict ''chromosome-length'') alpha))))
       else andThen (property (dict_get dict ''integerRange'') ''min'') (\<lambda>mn.
            andThen (property (dict_get dict ''integerRange'') ''max'') (\<lambda>mx.
            Inr (IntegerListMutation mn mx))))"

definition getCrossoverOperator :: "(string \<times> json) list \<Rightarrow> error + Crossover" where
  "getCrossoverOperator dict =
     andThen (property (dict_get dict ''crossover'') ''operator'') (\<lambda>operator.
       if operator = JStr ''singlepointrelative'' then Inr SinglePointRelativeCrossover
       else Inr SinglePointCrossover)"

definition getSelectionOperator :: "(string \<times> json) list \<Rightarrow> error + Selection" where
  "getSelectionOperator dict =
     andThen (property (dict_get dict ''selection'') ''operator'') (\<lambda>operator.
       if operator = JStr ''tournament''
       then andThen (property (dict_get dict ''selection'') ''tournamentSize'') (\<lambda>tournamentSize.
            Inr (TournamentSelection tournamentSize))
       else Inr RankSelection)"

definition getChromosomeGenerator :: "(string \<times> json) list \<Rightarrow> error + ChromosomeGenerator" where
  "getChromosomeGenerator dict =
     (let chromosome = dict_get dict ''chromosome''
      in andThen (getSearchAlgorithmProperties dict) (\<lambda>properties.
         andThen (getMutationOperator dict) (\<lambda>mutation.
         andThen (getCrossoverOperator dict) (\<lambda>crossover.
           if chromosome = JStr ''bitstring''
           then Inr (BitstringChromosomeGenerator properties mutation crossover)
           else if chromosome = JStr ''integerlist''
           then Inr (IntegerListChromosomeGenerator properties mutation crossover)
           else if chromosome = JStr ''variablelengthtest''
           then Inr (VariableLengthTestChromosomeGenerator properties mutation crossover
                       (dict_get dict ''init-var-length''))
           else Inr (TestChromosomeGenerator properties mutation crossover)))))"

definition getFitnessFunctionType :: "(string \<times> json) list \<Rightarrow> error + FitnessFunctionType" where
  "getFitnessFunctionType dict =
     andThen (property (dict_get dict ''fitness-function'') ''type'') (\<lambda>type.
       if type = JStr ''statement'' then Inr STATEMENT
       else if type = JStr ''one-max'' then Inr ONE_MAX
       else Inr SINGLE_BIT)"

section \<open>RandomTestGenerator\<close>

text \<open>
  The fields of a \<open>RandomTestGenerator\<close> object (prefixed: the MOSA class below has
  fields of the same names). \<open>rtg_world\<close> stands for everything outside the object
  that its collaborators read: the state of the random number generator and the clock.
\<close>

record ('g, 'w) RandomTestGenerator =
  rtg_startTime :: nat
  rtg_iterations :: nat
  rtg_tests :: "'g Chromosome list"
  rtg_fitnessFunctions :: "(nat, 'g FitnessFunction) js_map"
  rtg_world :: 'w

definition getCurrentSolution :: "('g, 'w) RandomTestGenerator \<Rightarrow> 'g Chromosome list" where
  "getCurrentSolution this = rtg_tests this"

definition getFitnessFunctions :: "('g, 'w) RandomTestGenerator \<Rightarrow> 'g FitnessFunction list" where
  "getFitnessFunctions this = values_of (rtg_fitnessFunctions this)"

definition getNumberOfIterations :: "('g, 'w) RandomTestGenerator \<Rightarrow> nat" where
  "getNumberOfIterations this = rtg_iterations this"

definition getStartTime :: "('g, 'w) RandomTestGenerator \<Rightarrow> nat" where
  "getStartTime this = rtg_startTime this"

text \<open>
  The methods that only throw. Each takes the object and its argument and returns the
  error or the updated object and result; none ever returns the latter.
\<close>

definition findSolution ::
  "('g, 'w) RandomTestGenerator \<Rightarrow> error + ('g, 'w) RandomTestGenerator \<times> 'g Chromosome list" where
  "findSolution this = Inl NotSupportedFunctionException"

definition setChromosomeGenerator ::
  "('g, 'w) RandomTestGenerator \<Rightarrow> 'a \<Rightarrow> error + ('g, 'w) RandomTestGenerator" where
  "setChromosomeGenerator this generator = Inl NotSupportedFunctionException"

definition setFitnessFunction ::
  "('g, 'w) RandomTestGenerator \<Rightarrow> 'g FitnessFunction \<Rightarrow> error + ('g, 'w) RandomTestGenerator" where
  "setFitnessFunction this fitnessFunction = Inl NotSupportedFunctionException"

definition setFitnessFunctions ::
  "('g, 'w) RandomTestGenerator \<Rightarrow> (nat, 'g FitnessFunction) js_map
     \<Rightarrow> error + ('g, 'w) RandomTestGenerator" where
  "setFitnessFunctions this fitnessFunctions' = Inl NotSupportedFunctionException"

definition setHeuristicFunctions ::
  "('g, 'w) RandomTestGenerator \<Rightarrow> (nat, real \<Rightarrow> real) js_map
     \<Rightarrow> error + ('g, 'w) RandomTestGenerator" where
  "setHeuristicFunctions this heuristicFunctions = Inl NotSupportedFunctionException"

definition setProperties ::
  "('g, 'w) RandomTestGenerator \<Rightarrow> 'a \<Rightarrow> error + ('g, 'w) RandomTestGenerator" where
  "setProperties this properties = Inl NotSupportedFunctionException"

definition setSelectionOperator ::
  "('g, 'w) RandomTestGenerator \<Rightarrow> 'a \<Rightarrow> error + ('g, 'w) RandomTestGenerator" where
  "setSelectionOperator this selectionOperator = Inl NotSupportedFunctionException"

subsection \<open>generateTests\<close>

text \<open>
  What \<open>generateTests\<close> is wired to, none of which is among the sources: the coverage
  goals \<open>_extractCoverageGoals()\<close> returns, the chromosome generator of the
  configuration, its stopping condition (which sees the iteration count, the current
  solution and the clock) and \<open>Date.now()\<close>. The statistics collector is only written
  to and is left out.
\<close>

record ('g, 'w) TestGeneratorCollaborators =
  extractCoverageGoals :: "(nat, 'g FitnessFunction) js_map"
  chromosomeGenerator_get :: "'w \<Rightarrow> 'g Chromosome \<times> 'w"
  stoppingCondition_isFinished :: "nat \<Rightarrow> 'g Chromosome list \<Rightarrow> 'w \<Rightarrow> bool"
  Date_now :: "'w \<Rightarrow> nat"

text \<open>A \<open>WhiskerTest\<close> wraps the chromosome it is constructed from.\<close>

datatype 'g WhiskerTest = WhiskerTest (chromosome: "'g Chromosome")

text \<open>
  The object with the local variables \<open>testSuite\<close> and \<open>uncoveredGoals\<close>. A goal is a
  fitness function object; the model keeps it with its key in the map, which stands
  for its identity, so that \<open>uncoveredGoals.remove(ff)\<close> takes out the first entry with
  the key of \<open>ff\<close>.
\<close>

record ('g, 'w) generateTests_state =
  gt_this :: "('g, 'w) RandomTestGenerator"
  gt_testSuite :: "'g WhiskerTest list"
  gt_uncoveredGoals :: "(nat \<times> 'g FitnessFunction) list"

fun remove_goal :: "nat \<Rightarrow> (nat \<times> 'a) list \<Rightarrow> (nat \<times> 'a) list" where
  "remove_goal k [] = []"
| "remove_goal k (e # es) = (if fst e = k then es else e # remove_goal k es)"

text \<open>
  The body of the loop over \<open>uncoveredGoals\<close>, on \<open>_tests\<close>, \<open>testSuite\<close> and
  \<open>coveredGoals\<close>; then one pass of the \<open>while\<close> loop.
\<close>

definition generateTests_cover ::
  "'g Chromosome \<Rightarrow> nat \<times> 'g FitnessFunction
     \<Rightarrow> 'g Chromosome list \<times> 'g WhiskerTest list \<times> (nat \<times> 'g FitnessFunction) list
     \<Rightarrow> 'g Chromosome list \<times> 'g WhiskerTest list \<times> (nat \<times> 'g FitnessFunction) list" where
  "generateTests_cover testChromosome ff acc =
     (case acc of (tests, testSuite, coveredGoals) \<Rightarrow>
        if isCovered (snd ff) testChromosome
        then (tests @ [testChromosome], testSuite @ [WhiskerTest testChromosome],
              coveredGoals @ [ff])
        else acc)"

definition generateTests_iteration ::
  "('g, 'w) TestGeneratorCollaborators \<Rightarrow> ('g, 'w) generateTests_state
     \<Rightarrow> ('g, 'w) generateTests_state" where
  "generateTests_iteration E st =
     (let this = gt_this st;
          generated = chromosomeGenerator_get E (rtg_world this);
          testChromosome = fst generated
      in case fold (generateTests_cover testChromosome) (gt_uncoveredGoals st)
                (rtg_tests this, gt_testSuite st, []) of
           (tests, testSuite, coveredGoals) \<Rightarrow>
             \<lparr> gt_this = this \<lparr> rtg_iterations := rtg_iterations this + 1,
                                rtg_tests := tests, rtg_world := snd generated \<rparr>,
               gt_testSuite = testSuite,
               gt_uncoveredGoals =
                 fold (\<lambda>ff. remove_goal (fst ff)) coveredGoals (gt_uncoveredGoals st) \<rparr>)"

definition generateTests_start ::
  "('g, 'w) TestGeneratorCollaborators \<Rightarrow> ('g, 'w) RandomTestGenerator
     \<Rightarrow> ('g, 'w) generateTests_state" where
  "generateTests_start E this =
     \<lparr> gt_this = this \<lparr> rtg_fitnessFunctions := extractCoverageGoals E,
                        rtg_startTime := Date_now E (rtg_world this) \<rparr>,
       gt_testSuite = [],
       gt_uncoveredGoals = extractCoverageGoals E \<rparr>"

text \<open>
  The \<open>while\<close> loop, which may run forever: \<open>generateTests_loop n\<close> is the state after at
  most \<open>n\<close> passes, and \<open>generateTests n\<close> is what the method returns (the object and
  the test suite) when the stopping condition fires within \<open>n\<close> passes.
\<close>

fun generateTests_loop ::
  "('g, 'w) TestGeneratorCollaborators \<Rightarrow> nat \<Rightarrow> ('g, 'w) generateTests_state
     \<Rightarrow> ('g, 'w) generateTests_state" where
  "generateTests_loop E 0 st = st"
| "generateTests_loop E (Suc n) st =
     (if stoppingCondition_isFinished E (rtg_iterations (gt_this st)) (rtg_tests (gt_this st))
           (rtg_world (gt_this st))
      then st
      else generateTests_loop E n (generateTests_iteration E st))"

definition generateTests ::
  "('g, 'w) TestGeneratorCollaborators \<Rightarrow> nat \<Rightarrow> ('g, 'w) RandomTestGenerator
     \<Rightarrow> (('g, 'w) RandomTestGenerator \<times> 'g WhiskerTest list) option" where
  "generateTests E n this =
     (let st = generateTests_loop E n (generateTests_start E this)
      in if stoppingCondition_isFinished E (rtg_iterations (gt_this st)) (rtg_tests (gt_this st))
              (rtg_world (gt_this st))
         then Some (gt_this st, gt_testSuite st)
         else None)"

section \<open>MOSA\<close>

subsection \<open>Collaborators and state\<close>

text \<open>
  The objects MOSA is wired to, none of which is among the sources: the properties
  (\<open>getPopulationSize\<close>, \<open>getCrossoverProbability\<close>, \<open>getMutationProbablity\<close>), the
  population factory over the chromosome generator (\<open>generate\<close>), the stopping
  condition (\<open>isFinished\<close>, which sees the iteration count, the current solution and
  the clock), the selection operator (\<open>selectionOperator_apply\<close>), the random number
  generator (\<open>nextDouble\<close>, \<open>nextRaw\<close>), the chromosomes' own \<open>crossover\<close> and
  \<open>mutate\<close>, and \<open>List.shuffle\<close>. Whatever is random or reads the clock takes the
  world \<open>'w\<close> and returns the next one.
\<close>

record ('g, 'w) Collaborators =
  getPopulationSize :: nat
  getCrossoverProbability :: real
  getMutationProbablity :: real
  generate :: "nat \<Rightarrow> 'w \<Rightarrow> 'g Chromosome list \<times> 'w"
  isFinished :: "nat \<Rightarrow> 'g Chromosome list \<Rightarrow> 'w \<Rightarrow> bool"
  selectionOperator_apply :: "'g Chromosome list \<Rightarrow> 'w \<Rightarrow> 'g Chromosome \<times> 'w"
  nextDouble :: "'w \<Rightarrow> real \<times> 'w"
  nextRaw :: "'w \<Rightarrow> nat \<times> 'w"
  crossover :: "'g Chromosome \<Rightarrow> 'g Chromosome \<Rightarrow> 'w \<Rightarrow> ('g Chromosome \<times> 'g Chromosome) \<times> 'w"
  mutate :: "'g Chromosome \<Rightarrow> 'w \<Rightarrow> 'g Chromosome \<times> 'w"
  shuffle :: "'g Chromosome list \<Rightarrow> 'w \<Rightarrow> 'g Chromosome list \<times> 'w"

text \<open>
  Modelled from the spec: \<open>Randomness.nextInt\<close>, whose source is missing; the spec gives
  \<open>nextInt(lo, hi) \<in> [lo, hi)\<close>. The generator's raw draw is reduced into the range.
\<close>

definition nextInt :: "('g, 'w) Collaborators \<Rightarrow> nat \<Rightarrow> nat \<Rightarrow> 'w \<Rightarrow> nat \<times> 'w" where
  "nextInt E lo hi w = (let (n, w') = nextRaw E w in (lo + n mod (hi - lo), w'))"

text \<open>
  The fields \<open>_iterations\<close>, \<open>_bestIndividuals\<close> and \<open>_archive\<close> of a MOSA object,
  with the local variable \<open>parentPopulation\<close> of \<open>findSolution\<close> and the world.
\<close>

record ('g, 'w) MOSA_state =
  mosa_iterations :: nat
  mosa_bestIndividuals :: "'g Chromosome list"
  mosa_archive :: "(nat, 'g Chromosome) js_map"
  mosa_parentPopulation :: "'g Chromosome list"
  mosa_world :: 'w

subsection \<open>generateOffspringPopulation and selectChromosome\<close>

definition selectChromosome ::
  "('g, 'w) Collaborators \<Rightarrow> 'g Chromosome list \<Rightarrow> bool \<Rightarrow> 'w \<Rightarrow> 'g Chromosome \<times> 'w" where
  "selectChromosome E population useRankSelection w =
     (if useRankSelection then selectionOperator_apply E population w
      else (let (randomIndex, w') = nextInt E 0 (length population) w
            in (population ! randomIndex, w')))"

text \<open>One pass through the body of the \<open>while\<close> loop: the two children and the next world.\<close>

definition breed ::
  "('g, 'w) Collaborators \<Rightarrow> 'g Chromosome list \<Rightarrow> bool \<Rightarrow> 'w
     \<Rightarrow> ('g Chromosome \<times> 'g Chromosome) \<times> 'w" where
  "breed E parentPopulation useRankSelection w =
     (let (parent1, w1) = selectChromosome E parentPopulation useRankSelection w;
          (parent2, w2) = selectChromosome E parentPopulation useRankSelection w1;
          (d1, w3) = nextDouble E w2;
          ((child1, child2), w4) =
             (if d1 < getCrossoverProbability E then crossover E parent1 parent2 w3
              else ((parent1, parent2), w3));
          (d2, w5) = nextDouble E w4;
          (child1', w6) = (if d2 < getMutationProbablity E then mutate E child1 w5 else (child1, w5));
          (d3, w7) = nextDouble E w6;
          (child2', w8) = (if d3 < getMutationProbablity E then mutate E child2 w7 else (child2, w7))
      in ((child1', child2'), w8))"

function generateOffspringPopulation_loop ::
  "('g, 'w) Collaborators \<Rightarrow> 'g Chromosome list \<Rightarrow> bool \<Rightarrow> 'g Chromosome list \<Rightarrow> 'w
     \<Rightarrow> 'g Chromosome list \<times> 'w" where
  "generateOffspringPopulation_loop E parentPopulation useRankSelection offspringPopulation w =
     (if length offspringPopulation < length parentPopulation then
        (let children = breed E parentPopulation useRankSelection w;
             offspring1 = offspringPopulation @ [fst (fst children)];
             offspring2 = (if length offspring1 < length parentPopulation
                           then offspring1 @ [snd (fst children)] else offspring1)
         in generateOffspringPopulation_loop E parentPopulation useRankSelection offspring2
              (snd children))
      else (offspringPopulation, w))"
  by pat_completeness auto
termination
  by (relation "measure (\<lambda>(E, parentPopulation, useRankSelection, offspringPopulation, w).
        length parentPopulation - length offspringPopulation)") auto

definition generateOffspringPopulation ::
  "('g, 'w) Collaborators \<Rightarrow> 'g Chromosome list \<Rightarrow> bool \<Rightarrow> 'w \<Rightarrow> 'g Chromosome list \<times> 'w" where
  "generateOffspringPopulation E parentPopulation useRankSelection w =
     generateOffspringPopulation_loop E parentPopulation useRankSelection [] w"

subsection \<open>updateArchive\<close>

definition MAX_SAFE_INTEGER :: nat where
  "MAX_SAFE_INTEGER = 2 ^ 53 - 1"

text \<open>
  The inner loop over the candidates for the goal with key \<open>k\<close>, on the pair of the
  local \<open>bestLength\<close> and the archive.
\<close>

fun updateArchive_candidates ::
  "nat \<Rightarrow> 'g FitnessFunction \<Rightarrow> 'g Chromosome list \<Rightarrow> nat \<times> (nat, 'g Chromosome) js_map
     \<Rightarrow> nat \<times> (nat, 'g Chromosome) js_map" where
  "updateArchive_candidates k fitnessFunction [] (bestLength, archive) = (bestLength, archive)"
| "updateArchive_candidates k fitnessFunction (candidateChromosome # rest) (bestLength, archive) =
     (let candidateFitness = getFitness fitnessFunction candidateChromosome;
          candidateLength = getLength candidateChromosome
      in if isOptimal fitnessFunction candidateFitness \<and> candidateLength < bestLength
         then updateArchive_candidates k fitnessFunction rest
                (candidateLength, AList.update k candidateChromosome archive)
         else updateArchive_candidates k fitnessFunction rest (bestLength, archive))"

text \<open>
  The body of the outer loop. The source iterates over the keys and reads the fitness
  function of each key from the map; the model iterates over the entries of the map.
\<close>

definition updateArchive_goal ::
  "'g Chromosome list \<Rightarrow> nat \<times> 'g FitnessFunction \<Rightarrow> (nat, 'g Chromosome) js_map
     \<Rightarrow> (nat, 'g Chromosome) js_map" where
  "updateArchive_goal chromosomes entry archive =
     (let bestLength = (case map_of archive (fst entry) of
                          Some c \<Rightarrow> getLength c
                        | None \<Rightarrow> MAX_SAFE_INTEGER)
      in snd (updateArchive_candidates (fst entry) (snd entry) chromosomes (bestLength, archive)))"

definition updateArchive ::
  "(nat, 'g FitnessFunction) js_map \<Rightarrow> (nat, 'g Chromosome) js_map \<Rightarrow> 'g Chromosome list
     \<Rightarrow> (nat, 'g Chromosome) js_map" where
  "updateArchive fitnessFunctions archive chromosomes =
     fold (updateArchive_goal chromosomes) fitnessFunctions archive"

subsection \<open>dominates and calculateSVD\<close>

fun dominates_loop ::
  "(nat, 'g Chromosome) js_map \<Rightarrow> 'g Chromosome \<Rightarrow> 'g Chromosome
     \<Rightarrow> (nat, 'g FitnessFunction) js_map \<Rightarrow> bool \<Rightarrow> bool" where
  "dominates_loop archive chromosome1 chromosome2 [] dominatesAtLeastOnce = dominatesAtLeastOnce"
| "dominates_loop archive chromosome1 chromosome2 ((k, fitnessFunction) # rest) dominatesAtLeastOnce =
     (if \<not> has archive k then
        (let fitness1 = getFitness fitnessFunction chromosome1;
             fitness2 = getFitness fitnessFunction chromosome2;
             compareValue = compare fitnessFunction fitness1 fitness2
         in if compareValue < 0 then False
            else if compareValue > 0 then dominates_loop archive chromosome1 chromosome2 rest True
            else dominates_loop archive chromosome1 chromosome2 rest dominatesAtLeastOnce)
      else dominates_loop archive chromosome1 chromosome2 rest dominatesAtLeastOnce)"

definition dominates ::
  "(nat, 'g FitnessFunction) js_map \<Rightarrow> (nat, 'g Chromosome) js_map
     \<Rightarrow> 'g Chromosome \<Rightarrow> 'g Chromosome \<Rightarrow> bool" where
  "dominates fitnessFunctions archive chromosome1 chromosome2 =
     dominates_loop archive chromosome1 chromosome2 fitnessFunctions False"

definition calculateSVD ::
  "(nat, 'g FitnessFunction) js_map \<Rightarrow> 'g Chromosome \<Rightarrow> 'g Chromosome \<Rightarrow> nat" where
  "calculateSVD fitnessFunctions chromosome1 chromosome2 =
     fold (\<lambda>fitnessFunction svd.
             (let fitness1 = getFitness fitnessFunction chromosome1;
                  fitness2 = getFitness fitnessFunction chromosome2;
                  compareValue = compare fitnessFunction fitness1 fitness2
              in if compareValue < 0 then svd + 1 else svd))
          (values_of fitnessFunctions) 0"

subsection \<open>fastNonDominatedSorting\<close>

text \<open>
  The maps \<open>dominatedValues\<close> and \<open>dominationCount\<close> are keyed by chromosome objects.
  \<open>fnds_compare\<close> is the body of the inner loop of the first phase, on the pair of
  \<open>dominatedValuesP\<close> and \<open>dominationCountP\<close>.
\<close>

definition fnds_compare ::
  "(nat, 'g FitnessFunction) js_map \<Rightarrow> (nat, 'g Chromosome) js_map \<Rightarrow> 'g Chromosome
     \<Rightarrow> 'g Chromosome \<Rightarrow> 'g Chromosome list \<times> int \<Rightarrow> 'g Chromosome list \<times> int" where
  "fnds_compare fitnessFunctions archive p q acc =
     (if dominates fitnessFunctions archive p q then (fst acc @ [q], snd acc)
      else if dominates fitnessFunctions archive q p then (fst acc, snd acc + 1)
      else acc)"

text \<open>
  The second phase. \<open>fnds_release\<close> is the body of its innermost loop, on the pair of
  \<open>nextFront\<close> and \<open>dominationCount\<close>; every chromosome it meets is a key of both maps
  (they are filled for every chromosome of the list), so the \<open>None\<close> branches are
  never taken.
\<close>

definition fnds_release ::
  "'g Chromosome \<Rightarrow> 'g Chromosome list \<times> ('g Chromosome, int) js_map
     \<Rightarrow> 'g Chromosome list \<times> ('g Chromosome, int) js_map" where
  "fnds_release q acc =
     (case map_of (snd acc) q of
        None \<Rightarrow> acc
      | Some n \<Rightarrow>
          (let dominationCountQ = n - 1;
               dominationCount = AList.update q dominationCountQ (snd acc)
           in (if dominationCountQ = 0 then fst acc @ [q] else fst acc, dominationCount)))"

definition fnds_nextFront ::
  "('g Chromosome, 'g Chromosome list) js_map \<Rightarrow> 'g Chromosome list
     \<Rightarrow> ('g Chromosome, int) js_map \<Rightarrow> 'g Chromosome list \<times> ('g Chromosome, int) js_map" where
  "fnds_nextFront dominatedValues currentFront dominationCount =
     fold (\<lambda>p acc. fold fnds_release
                      (case map_of dominatedValues p of Some qs \<Rightarrow> qs | None \<Rightarrow> []) acc)
          currentFront ([], dominationCount)"

text \<open>
  Termination of the \<open>while\<close> loop: a pass never raises a count, and each chromosome
  it puts into \<open>nextFront\<close> has just gone from count one to count zero.
\<close>

definition positive_counts :: "('k, int) js_map \<Rightarrow> nat" where
  "positive_counts dominationCount = length (filter (\<lambda>e. 0 < snd e) dominationCount)"

lemma positive_counts_update:
  "map_of dc q = Some n \<Longrightarrow>
   positive_counts (AList.update q m dc) + (if 0 < n then 1 else 0)
     = positive_counts dc + (if 0 < m then 1 else 0)"
  by (induction dc) (auto simp: positive_counts_def)

lemma fnds_release_measure:
  "positive_counts (snd (fnds_release q acc)) + length (fst (fnds_release q acc))
     \<le> positive_counts (snd acc) + length (fst acc)"
proof (cases "map_of (snd acc) q")
  case None
  then show ?thesis by (simp add: fnds_release_def)
next
  case (Some n)
  show ?thesis
  proof (cases "n = 1")
    case True
    with positive_counts_update [OF Some, of 0] Some show ?thesis
      by (simp add: fnds_release_def)
  next
    case False
    with positive_counts_update [OF Some, of "n - 1"] Some show ?thesis
      by (simp add: fnds_release_def Let_def split: if_splits)
  qed
qed

lemma fold_fnds_release_measure:
  "positive_counts (snd (fold fnds_release qs acc)) + length (fst (fold fnds_release qs acc))
     \<le> positive_counts (snd acc) + length (fst acc)"
proof (induction qs arbitrary: acc)
  case Nil
  then show ?case by simp
next
  case (Cons q qs)
  have "positive_counts (snd (fold fnds_release qs (fnds_release q acc)))
          + length (fst (fold fnds_release qs (fnds_release q acc)))
        \<le> positive_counts (snd (fnds_release q acc)) + length (fst (fnds_release q acc))"
    by (rule Cons.IH)
  also have "\<dots> \<le> positive_counts (snd acc) + length (fst acc)"
    by (rule fnds_release_measure)
  finally show ?case by simp
qed

lemma fnds_nextFront_measure:
  "positive_counts (snd (fnds_nextFront dv cf dc)) + length (fst (fnds_nextFront dv cf dc))
     \<le> positive_counts dc"
proof -
  have "positive_counts (snd (fold (\<lambda>p acc. fold fnds_release
                      (case map_of dv p of Some qs \<Rightarrow> qs | None \<Rightarrow> []) acc) cf acc))
        + length (fst (fold (\<lambda>p acc. fold fnds_release
                      (case map_of dv p of Some qs \<Rightarrow> qs | None \<Rightarrow> []) acc) cf acc))
        \<le> positive_counts (snd acc) + length (fst acc)" for acc
  proof (induction cf arbitrary: acc)
    case Nil
    then show ?case by simp
  next
    case (Cons p ps)
    show ?case
      using Cons.IH [of "fold fnds_release (case map_of dv p of Some qs \<Rightarrow> qs | None \<Rightarrow> []) acc"]
        fold_fnds_release_measure [of "case map_of dv p of Some qs \<Rightarrow> qs | None \<Rightarrow> []" acc]
      by simp
  qed
  from this [of "([], dc)"] show ?thesis by (simp add: fnds_nextFront_def)
qed

function fnds_fronts ::
  "('g Chromosome, 'g Chromosome list) js_map \<Rightarrow> 'g Chromosome list
     \<Rightarrow> ('g Chromosome, int) js_map \<Rightarrow> 'g Chromosome list list \<Rightarrow> 'g Chromosome list list" where
  "fnds_fronts dominatedValues currentFront dominationCount fronts =
     (if length currentFront > 0 then
        (let next = fnds_nextFront dominatedValues currentFront dominationCount
         in fnds_fronts dominatedValues (fst next) (snd next) (fronts @ [currentFront]))
      else fronts)"
  by pat_completeness auto
termination
proof (relation "measure (\<lambda>(dominatedValues, currentFront, dominationCount, fronts).
          2 * positive_counts dominationCount + (if currentFront = [] then 0 else 1))", goal_cases)
  case 1
  show ?case by simp
next
  case (2 dv cf dc fronts nxt)
  let ?nf = "fst (fnds_nextFront dv cf dc)" and ?dc = "snd (fnds_nextFront dv cf dc)"
  have le: "positive_counts ?dc + length ?nf \<le> positive_counts dc"
    by (rule fnds_nextFront_measure)
  show ?case
  proof (cases "?nf = []")
    case True
    with le 2 show ?thesis by simp
  next
    case False
    then have "1 \<le> length ?nf"
      by (cases ?nf) simp_all
    with le have "positive_counts ?dc < positive_counts dc"
      by linarith
    with False 2 show ?thesis by simp
  qed
qed

definition fnds_first ::
  "(nat, 'g FitnessFunction) js_map \<Rightarrow> (nat, 'g Chromosome) js_map \<Rightarrow> 'g Chromosome list
     \<Rightarrow> 'g Chromosome
     \<Rightarrow> 'g Chromosome list \<times> ('g Chromosome, 'g Chromosome list) js_map
          \<times> ('g Chromosome, int) js_map
     \<Rightarrow> 'g Chromosome list \<times> ('g Chromosome, 'g Chromosome list) js_map
          \<times> ('g Chromosome, int) js_map" where
  "fnds_first fitnessFunctions archive chromosomes p acc =
     (case acc of (firstFront, dominatedValues, dominationCount) \<Rightarrow>
        (let pq = fold (fnds_compare fitnessFunctions archive p) chromosomes ([], 0);
             dominatedValuesP = fst pq;
             dominationCountP = snd pq
         in (if dominationCountP = 0 then firstFront @ [p] else firstFront,
             AList.update p dominatedValuesP dominatedValues,
             AList.update p dominationCountP dominationCount)))"

definition fastNonDominatedSorting ::
  "(nat, 'g FitnessFunction) js_map \<Rightarrow> (nat, 'g Chromosome) js_map \<Rightarrow> 'g Chromosome list
     \<Rightarrow> 'g Chromosome list list" where
  "fastNonDominatedSorting fitnessFunctions archive chromosomes =
     (case fold (fnds_first fitnessFunctions archive chromosomes) chromosomes ([], [], []) of
        (firstFront, dominatedValues, dominationCount) \<Rightarrow>
          fnds_fronts dominatedValues firstFront dominationCount [])"

subsection \<open>preferenceSorting\<close>

text \<open>
  The scan for the best chromosome of one goal, over \<open>chromosomes.subList(1, size)\<close>,
  on the local variables \<open>bestChromosome\<close> and \<open>bestFitness\<close>.
\<close>

fun bestChromosome_scan ::
  "'g FitnessFunction \<Rightarrow> 'g Chromosome list \<Rightarrow> 'g Chromosome \<Rightarrow> real \<Rightarrow> 'g Chromosome" where
  "bestChromosome_scan fitnessFunction [] bestChromosome bestFitness = bestChromosome"
| "bestChromosome_scan fitnessFunction (candidateChromosome # rest) bestChromosome bestFitness =
     (let candidateFitness = getFitness fitnessFunction candidateChromosome;
          compareValue = compare fitnessFunction candidateFitness bestFitness
      in if compareValue > 0
            \<or> (compareValue = 0 \<and> getLength candidateChromosome < getLength bestChromosome)
         then bestChromosome_scan fitnessFunction rest candidateChromosome candidateFitness
         else bestChromosome_scan fitnessFunction rest bestChromosome bestFitness)"

text \<open>
  The loop over the goals, on the pair of \<open>bestFront\<close> and
  \<open>chromosomesForNonDominatedSorting\<close>. \<open>chromosomes.get(0)\<close> of an empty list is
  \<open>undefined\<close>, and the source then asks the fitness function for the fitness of
  \<open>undefined\<close>: the model raises TypeError there. \<open>List.contains\<close> and \<open>List.remove\<close>
  compare with \<open>===\<close>, and \<open>remove\<close> takes the first occurrence out.
\<close>

fun preferenceSorting_goals ::
  "(nat, 'g Chromosome) js_map \<Rightarrow> 'g Chromosome list \<Rightarrow> (nat, 'g FitnessFunction) js_map
     \<Rightarrow> 'g Chromosome list \<times> 'g Chromosome list
     \<Rightarrow> error + 'g Chromosome list \<times> 'g Chromosome list" where
  "preferenceSorting_goals archive chromosomes [] acc = Inr acc"
| "preferenceSorting_goals archive chromosomes ((k, fitnessFunction) # rest) acc =
     (if \<not> has archive k then
        (case chromosomes of
           [] \<Rightarrow> Inl TypeError
         | first # others \<Rightarrow>
             (let bestChromosome =
                    bestChromosome_scan fitnessFunction others first (getFitness fitnessFunction first)
              in if bestChromosome \<notin> set (fst acc)
                 then preferenceSorting_goals archive chromosomes rest
                        (fst acc @ [bestChromosome], remove1 bestChromosome (snd acc))
                 else preferenceSorting_goals archive chromosomes rest acc))
      else preferenceSorting_goals archive chromosomes rest acc)"

definition preferenceSorting ::
  "('g, 'w) Collaborators \<Rightarrow> (nat, 'g FitnessFunction) js_map \<Rightarrow> (nat, 'g Chromosome) js_map
     \<Rightarrow> 'g Chromosome list \<Rightarrow> error + 'g Chromosome list list" where
  "preferenceSorting E fitnessFunctions archive chromosomes =
     (case preferenceSorting_goals archive chromosomes fitnessFunctions ([], chromosomes) of
        Inl e \<Rightarrow> Inl e
      | Inr (bestFront, chromosomesForNonDominatedSorting) \<Rightarrow>
          Inr ((if length bestFront > 0 then [bestFront] else [])
               @ (if length bestFront > getPopulationSize E
                  then [chromosomesForNonDominatedSorting]
                  else fastNonDominatedSorting fitnessFunctions archive
                         chromosomesForNonDominatedSorting)))"

subsection \<open>subVectorDominanceSorting\<close>

text \<open>
  The map \<open>distances\<close>, then the shuffle, then \<open>Array.sort\<close> by distance, which is
  stable, as \<open>sort_key\<close> is.
\<close>

definition svd_distance ::
  "(nat, 'g FitnessFunction) js_map \<Rightarrow> 'g Chromosome list \<Rightarrow> 'g Chromosome \<Rightarrow> nat" where
  "svd_distance fitnessFunctions front chromosome1 =
     fold (\<lambda>chromosome2 distance.
             if chromosome1 \<noteq> chromosome2
             then (let svd = calculateSVD fitnessFunctions chromosome1 chromosome2
                   in if distance < svd then svd else distance)
             else distance)
          front 0"

definition subVectorDominanceSorting ::
  "('g, 'w) Collaborators \<Rightarrow> (nat, 'g FitnessFunction) js_map \<Rightarrow> 'g Chromosome list \<Rightarrow> 'w
     \<Rightarrow> 'g Chromosome list \<times> 'w" where
  "subVectorDominanceSorting E fitnessFunctions front w =
     (let distances = fold (\<lambda>chromosome1 m.
                              AList.update chromosome1
                                (svd_distance fitnessFunctions front chromosome1) m)
                           front [];
          shuffled = shuffle E front w
      in (sort_key (\<lambda>c. case map_of distances c of Some d \<Rightarrow> d | None \<Rightarrow> 0) (fst shuffled),
          snd shuffled))"

subsection \<open>findSolution\<close>

text \<open>The \<open>for\<close> loop over the fronts that fills the next parent population.\<close>

fun fill_parentPopulation ::
  "('g, 'w) Collaborators \<Rightarrow> (nat, 'g FitnessFunction) js_map \<Rightarrow> 'g Chromosome list list
     \<Rightarrow> 'g Chromosome list \<Rightarrow> 'w \<Rightarrow> 'g Chromosome list \<times> 'w" where
  "fill_parentPopulation E fitnessFunctions [] parentPopulation w = (parentPopulation, w)"
| "fill_parentPopulation E fitnessFunctions (front # fronts) parentPopulation w =
     (let sorted = subVectorDominanceSorting E fitnessFunctions front w
      in if length parentPopulation + length (fst sorted) \<le> getPopulationSize E
         then fill_parentPopulation E fitnessFunctions fronts (parentPopulation @ fst sorted)
                (snd sorted)
         else (parentPopulation
                 @ take (getPopulationSize E - length parentPopulation) (fst sorted),
               snd sorted))"

text \<open>
  Modelled from the spec: \<open>List.distinct\<close>, whose source is missing; the spec gives
  \<open>bestIndividuals = distinct(archive.values())\<close>. The first occurrence of each
  chromosome is kept.
\<close>

definition distinct_list :: "'a list \<Rightarrow> 'a list" where
  "distinct_list xs = rev (remdups (rev xs))"

text \<open>The statements of \<open>findSolution\<close> before the loop, and the body of the loop.\<close>

definition MOSA_init ::
  "('g, 'w) Collaborators \<Rightarrow> (nat, 'g FitnessFunction) js_map \<Rightarrow> nat \<Rightarrow> 'w
     \<Rightarrow> ('g, 'w) MOSA_state" where
  "MOSA_init E fitnessFunctions iterations0 w =
     (let generated = generate E (getPopulationSize E) w
      in \<lparr> mosa_iterations = iterations0,
           mosa_bestIndividuals = [],
           mosa_archive = updateArchive fitnessFunctions [] (fst generated),
           mosa_parentPopulation = fst generated,
           mosa_world = snd generated \<rparr>)"

definition MOSA_iteration ::
  "('g, 'w) Collaborators \<Rightarrow> (nat, 'g FitnessFunction) js_map \<Rightarrow> ('g, 'w) MOSA_state
     \<Rightarrow> error + ('g, 'w) MOSA_state" where
  "MOSA_iteration E fitnessFunctions st =
     (let offspring = generateOffspringPopulation E (mosa_parentPopulation st)
                        (mosa_iterations st > 0) (mosa_world st);
          offspringPopulation = fst offspring;
          archive1 = updateArchive fitnessFunctions (mosa_archive st) offspringPopulation;
          chromosomes = mosa_parentPopulation st @ offspringPopulation
      in case preferenceSorting E fitnessFunctions archive1 chromosomes of
           Inl e \<Rightarrow> Inl e
         | Inr fronts \<Rightarrow>
             (let filled = fill_parentPopulation E fitnessFunctions fronts [] (snd offspring);
                  archive2 = updateArchive fitnessFunctions archive1 (fst filled)
              in Inr \<lparr> mosa_iterations = mosa_iterations st + 1,
                       mosa_bestIndividuals = distinct_list (values_of archive2),
                       mosa_archive = archive2,
                       mosa_parentPopulation = rev (fst filled),
                       mosa_world = snd filled \<rparr>))"

text \<open>
  The \<open>while\<close> loop, which may run forever: \<open>MOSA_loop n\<close> is the state after at most
  \<open>n\<close> passes, so every state a run goes through is \<open>MOSA_loop n\<close> of the initial
  state for some \<open>n\<close>. \<open>MOSA_findSolution n\<close> is the list \<open>findSolution\<close> returns when
  the stopping condition fires within \<open>n\<close> passes, and \<open>None\<close> when it has not fired.
\<close>

fun MOSA_loop ::
  "('g, 'w) Collaborators \<Rightarrow> (nat, 'g FitnessFunction) js_map \<Rightarrow> nat \<Rightarrow> ('g, 'w) MOSA_state
     \<Rightarrow> error + ('g, 'w) MOSA_state" where
  "MOSA_loop E fitnessFunctions 0 st = Inr st"
| "MOSA_loop E fitnessFunctions (Suc n) st =
     (if isFinished E (mosa_iterations st) (mosa_bestIndividuals st) (mosa_world st) then Inr st
      else (case MOSA_iteration E fitnessFunctions st of
              Inl e \<Rightarrow> Inl e
            | Inr st' \<Rightarrow> MOSA_loop E fitnessFunctions n st'))"

definition MOSA_findSolution ::
  "('g, 'w) Collaborators \<Rightarrow> (nat, 'g FitnessFunction) js_map \<Rightarrow> nat \<Rightarrow> nat \<Rightarrow> 'w
     \<Rightarrow> (error + 'g Chromosome list) option" where
  "MOSA_findSolution E fitnessFunctions n iterations0 w =
     (case MOSA_loop E fitnessFunctions n (MOSA_init E fitnessFunctions iterations0 w) of
        Inl e \<Rightarrow> Some (Inl e)
      | Inr st \<Rightarrow>
          if isFinished E (mosa_iterations st) (mosa_bestIndividuals st) (mosa_world st)
          then Some (Inr (mosa_bestIndividuals st))
          else None)"

section \<open>SinglePointRelativeCrossover\<close>

text \<open>
  Modelled from the spec: \<open>SinglePointRelativeCrossover\<close>, whose source is missing (only
  its test is among the sources). The spec: pick a relative cut point \<open>r \<in> (0,1)\<close>; each
  parent is cut at \<open>floor(r \<cdot> parentLength)\<close>; the offspring swap tails. \<open>fresh\<close> holds
  the identities of the two new chromosome objects.
\<close>

definition cutPoint :: "real \<Rightarrow> nat \<Rightarrow> nat" where
  "cutPoint r parentLength = nat \<lfloor>r * real parentLength\<rfloor>"

definition SinglePointRelativeCrossover_apply ::
  "real \<Rightarrow> nat \<times> nat \<Rightarrow> 'g Chromosome \<Rightarrow> 'g Chromosome \<Rightarrow> 'g Chromosome \<times> 'g Chromosome" where
  "SinglePointRelativeCrossover_apply r fresh parent1 parent2 =
     (let pos1 = cutPoint r (getLength parent1);
          pos2 = cutPoint r (getLength parent2)
      in (\<lparr> ref = fst fresh, genes = take pos1 (genes parent1) @ drop pos2 (genes parent2) \<rparr>,
          \<lparr> ref = snd fresh, genes = take pos2 (genes parent2) @ drop pos1 (genes parent1) \<rparr>))"

section \<open>Predicates of the specification\<close>

text \<open>
  The archive invariant: every entry \<open>(g, c)\<close> of the archive is optimal for the fitness
  function of its goal \<open>g\<close>.
\<close>

definition archive_optimal ::
  "(nat, 'g FitnessFunction) js_map \<Rightarrow> (nat, 'g Chromosome) js_map \<Rightarrow> bool" where
  "archive_optimal fitnessFunctions archive =
     list_all (\<lambda>(g, c). case map_of fitnessFunctions g of
                           None \<Rightarrow> False
                         | Some ff \<Rightarrow> isOptimal ff (getFitness ff c)) archive"

text \<open>
  For the replacement policy of the archive: the chromosome stored for a goal before an
  update (none or one), the candidates that are optimal for the goal, in the order they
  are considered, and what it means for position \<open>i\<close> of a list to hold its first
  shortest chromosome.
\<close>

definition current_entry :: "(nat, 'g Chromosome) js_map \<Rightarrow> nat \<Rightarrow> 'g Chromosome list" where
  "current_entry archive k = (case map_of archive k of None \<Rightarrow> [] | Some c \<Rightarrow> [c])"

definition optimal_candidates :: "'g FitnessFunction \<Rightarrow> 'g Chromosome list \<Rightarrow> 'g Chromosome list" where
  "optimal_candidates ff cs = filter (\<lambda>c. isOptimal ff (getFitness ff c)) cs"

definition first_shortest :: "'g Chromosome list \<Rightarrow> nat \<Rightarrow> bool" where
  "first_shortest pool i =
     (i < length pool
      \<and> (\<forall>j < length pool. getLength (pool ! i) \<le> getLength (pool ! j))
      \<and> (\<forall>j < i. getLength (pool ! i) < getLength (pool ! j)))"

text \<open>
  The contract of \<open>compare\<close> in the spec (a total order with \<open>compare(a, b) > 0\<close> iff
  \<open>a\<close> is better): the sign of \<open>compare\<close> is antisymmetric and "no worse" is
  transitive. The goals without an archive entry are the uncovered ones.
\<close>

definition total_order_compare :: "(real \<Rightarrow> real \<Rightarrow> real) \<Rightarrow> bool" where
  "total_order_compare cmp =
     ((\<forall>a b. (0 < cmp a b) = (cmp b a < 0))
      \<and> (\<forall>a b c. 0 \<le> cmp a b \<and> 0 \<le> cmp b c \<longrightarrow> 0 \<le> cmp a c))"

definition compareFitness :: "'g FitnessFunction \<Rightarrow> 'g Chromosome \<Rightarrow> 'g Chromosome \<Rightarrow> real" where
  "compareFitness ff a b = compare ff (getFitness ff a) (getFitness ff b)"

definition uncovered ::
  "(nat, 'g FitnessFunction) js_map \<Rightarrow> (nat, 'g Chromosome) js_map \<Rightarrow> 'g FitnessFunction list" where
  "uncovered fitnessFunctions archive = map snd (filter (\<lambda>e. \<not> has archive (fst e)) fitnessFunctions)"

text \<open>
  For preference sorting. Position \<open>i\<close> of \<open>R\<close> holds the preferred chromosome of a goal
  when its fitness compares no worse than any other, among those of equal fitness it is
  no longer than any other, and among those of equal fitness and length it comes first.
  \<open>better\<close> is the test by which the scan replaces its best chromosome. A preferred
  front for a set of goals holds the preferred chromosome of each goal, each once, and
  nothing else.
\<close>

definition preferred :: "'g FitnessFunction \<Rightarrow> 'g Chromosome list \<Rightarrow> nat \<Rightarrow> bool" where
  "preferred ff R i =
     (i < length R
      \<and> (\<forall>j < length R.
            0 \<le> compareFitness ff (R ! i) (R ! j)
            \<and> (compareFitness ff (R ! i) (R ! j) = 0 \<longrightarrow>
                 getLength (R ! i) \<le> getLength (R ! j)
                 \<and> (getLength (R ! i) = getLength (R ! j) \<longrightarrow> i \<le> j))))"

definition better :: "'g FitnessFunction \<Rightarrow> 'g Chromosome \<Rightarrow> 'g Chromosome \<Rightarrow> bool" where
  "better ff c b =
     (0 < compareFitness ff c b \<or> (compareFitness ff c b = 0 \<and> getLength c < getLength b))"

definition preferred_front ::
  "'g FitnessFunction set \<Rightarrow> 'g Chromosome list \<Rightarrow> 'g Chromosome list \<Rightarrow> bool" where
  "preferred_front goals R bestFront =
     (distinct bestFront
      \<and> (\<forall>ff \<in> goals. \<exists>i. preferred ff R i \<and> R ! i \<in> set bestFront)
      \<and> (\<forall>b \<in> set bestFront. \<exists>ff \<in> goals. \<exists>i. preferred ff R i \<and> R ! i = b))"

text \<open>
  For the output of random search. \<open>covers_new\<close> is the claim as the spec words it:
  every test of the suite covers a goal that no earlier test of the suite covers.
  \<open>one_per_goal\<close> relates a suite to a list of goals: the tests correspond one to one
  to the goals, which are distinct, each test covers its goal, and an earlier test
  covers that goal only if it is the same test.
\<close>

definition covers_new :: "(nat \<times> 'g FitnessFunction) list \<Rightarrow> 'g WhiskerTest list \<Rightarrow> bool" where
  "covers_new goals suite =
     (\<forall>i < length suite. \<exists>ff \<in> set goals.
         isCovered (snd ff) (chromosome (suite ! i))
         \<and> (\<forall>j < i. \<not> isCovered (snd ff) (chromosome (suite ! j))))"

definition one_per_goal ::
  "(nat \<times> 'g FitnessFunction) list \<Rightarrow> (nat \<times> 'g FitnessFunction) list
     \<Rightarrow> 'g WhiskerTest list \<Rightarrow> bool" where
  "one_per_goal goals coveredGoals suite =
     (length coveredGoals = length suite
      \<and> distinct (map fst coveredGoals)
      \<and> set coveredGoals \<subseteq> set goals
      \<and> (\<forall>i < length suite.
            isCovered (snd (coveredGoals ! i)) (chromosome (suite ! i))
            \<and> (\<forall>j < i. isCovered (snd (coveredGoals ! i)) (chromosome (suite ! j))
                   \<longrightarrow> suite ! j = suite ! i)))"

text \<open>
  The chromosomes the generator yields in the first \<open>k\<close> passes of the loop, from the
  world \<open>w\<close> on; and the goals that the chromosome of pass \<open>t\<close> covers and none of the
  chromosomes of the earlier passes does. \<open>expected_suite\<close> holds, pass by pass, the
  test of the chromosome of the pass once for each goal it newly covers, and
  \<open>expected_goals\<close> those goals in the same order.
\<close>

fun generated ::
  "('g, 'w) TestGeneratorCollaborators \<Rightarrow> nat \<Rightarrow> 'w \<Rightarrow> 'g Chromosome list" where
  "generated E 0 w = []"
| "generated E (Suc k) w =
     fst (chromosomeGenerator_get E w) # generated E k (snd (chromosomeGenerator_get E w))"

definition newly_covered ::
  "(nat \<times> 'g FitnessFunction) list \<Rightarrow> 'g Chromosome list \<Rightarrow> nat
     \<Rightarrow> (nat \<times> 'g FitnessFunction) list" where
  "newly_covered goals cs t =
     filter (\<lambda>ff. isCovered (snd ff) (cs ! t)
                 \<and> (\<forall>c \<in> set (take t cs). \<not> isCovered (snd ff) c)) goals"

definition expected_suite ::
  "(nat \<times> 'g FitnessFunction) list \<Rightarrow> 'g Chromosome list \<Rightarrow> 'g WhiskerTest list" where
  "expected_suite goals cs =
     concat (map (\<lambda>t. replicate (length (newly_covered goals cs t)) (WhiskerTest (cs ! t)))
               [0..<length cs])"

definition expected_goals ::
  "(nat \<times> 'g FitnessFunction) list \<Rightarrow> 'g Chromosome list \<Rightarrow> (nat \<times> 'g FitnessFunction) list" where
  "expected_goals goals cs = concat (map (newly_covered goals cs) [0..<length cs])"

text \<open>
  The world after the generator has been asked \<open>k\<close> times, the object after \<open>k\<close> passes
  of the loop of \<open>generateTests\<close>, and whether the stopping condition fires on it.
\<close>

fun world_after :: "('g, 'w) TestGeneratorCollaborators \<Rightarrow> nat \<Rightarrow> 'w \<Rightarrow> 'w" where
  "world_after E 0 w = w"
| "world_after E (Suc k) w = world_after E k (snd (chromosomeGenerator_get E w))"

definition after_passes ::
  "('g, 'w) TestGeneratorCollaborators \<Rightarrow> ('g, 'w) RandomTestGenerator \<Rightarrow> nat
     \<Rightarrow> ('g, 'w) RandomTestGenerator" where
  "after_passes E this k =
     this \<lparr> rtg_startTime := Date_now E (rtg_world this),
            rtg_iterations := rtg_iterations this + k,
            rtg_tests := rtg_tests this
               @ map chromosome (expected_suite (extractCoverageGoals E)
                                   (generated E k (rtg_world this))),
            rtg_fitnessFunctions := extractCoverageGoals E,
            rtg_world := world_after E k (rtg_world this) \<rparr>"

definition finished_after ::
  "('g, 'w) TestGeneratorCollaborators \<Rightarrow> ('g, 'w) RandomTestGenerator \<Rightarrow> nat \<Rightarrow> bool" where
  "finished_after E this k =
     stoppingCondition_isFinished E (rtg_iterations (after_passes E this k))
       (rtg_tests (after_passes E this k)) (rtg_world (after_passes E this k))"

text \<open>
  For the fronts of \<open>fastNonDominatedSorting\<close> on a list \<open>cs\<close>. \<open>dominatedBy\<close> and
  \<open>dominatorCount\<close> are what the first phase stores for a chromosome \<open>p\<close>: the
  chromosomes of \<open>cs\<close> that \<open>p\<close> dominates, and the number of chromosomes that
  dominate \<open>p\<close>. \<open>waiting\<close> holds the dominators of \<open>q\<close> that are in none of the fronts
  yet. \<open>fnds_invariant\<close> is the invariant of the \<open>while\<close> loop of the second phase:
  the fronts so far and the current front hold chromosomes of \<open>cs\<close>, each once; the
  count of every chromosome is the number of its waiting dominators; and the current
  front holds exactly the chromosomes outside the earlier fronts whose count is zero.
\<close>

definition dominatedBy ::
  "(nat, 'g FitnessFunction) js_map \<Rightarrow> (nat, 'g Chromosome) js_map \<Rightarrow> 'g Chromosome list
     \<Rightarrow> 'g Chromosome \<Rightarrow> 'g Chromosome list" where
  "dominatedBy F A cs p = filter (dominates F A p) cs"

definition dominatorCount ::
  "(nat, 'g FitnessFunction) js_map \<Rightarrow> (nat, 'g Chromosome) js_map \<Rightarrow> 'g Chromosome list
     \<Rightarrow> 'g Chromosome \<Rightarrow> int" where
  "dominatorCount F A cs p =
     int (length (filter (\<lambda>q. \<not> dominates F A p q \<and> dominates F A q p) cs))"

definition waiting ::
  "(nat, 'g FitnessFunction) js_map \<Rightarrow> (nat, 'g Chromosome) js_map \<Rightarrow> 'g Chromosome list
     \<Rightarrow> 'g Chromosome list list \<Rightarrow> 'g Chromosome \<Rightarrow> 'g Chromosome set" where
  "waiting F A cs fronts q = {p \<in> set cs - set (concat fronts). dominates F A p q}"

definition fnds_invariant ::
  "(nat, 'g FitnessFunction) js_map \<Rightarrow> (nat, 'g Chromosome) js_map \<Rightarrow> 'g Chromosome list
     \<Rightarrow> 'g Chromosome list \<Rightarrow> ('g Chromosome, int) js_map \<Rightarrow> 'g Chromosome list list
     \<Rightarrow> bool" where
  "fnds_invariant F A cs front DC fronts =
     (map fst DC = cs
      \<and> distinct (concat fronts @ front)
      \<and> set (concat fronts @ front) \<subseteq> set cs
      \<and> (\<forall>q \<in> set cs. map_of DC q = Some (int (card (waiting F A cs fronts q))))
      \<and> set front = {q \<in> set cs - set (concat fronts). map_of DC q = Some 0}
      \<and> (\<forall>q \<in> set (concat fronts). map_of DC q = Some 0))"

text \<open>
  For the fallback of the configuration: the dictionary after the assignment
  \<open>dict[section][key] = v\<close>, where the section is an object (otherwise the dictionary
  as it is). It gives the configuration that differs from a given one in a name only.
\<close>

definition with_property ::
  "string \<Rightarrow> string \<Rightarrow> json \<Rightarrow> (string \<times> json) list \<Rightarrow> (string \<times> json) list" where
  "with_property section key v dict =
     (case dict_get dict section of
        JObj kvs \<Rightarrow> AList.update section (JObj (AList.update key v kvs)) dict
      | _ \<Rightarrow> dict)"

text \<open>
  Modelled from the spec: the SingleBit fitness function over bit strings, whose source
  is missing (fitness maximized iff bit \<open>k\<close> is set); used for concrete inputs.
\<close>

definition singleBit :: "nat \<Rightarrow> bool FitnessFunction" where
  "singleBit k = \<lparr> getFitness = (\<lambda>c. if k < length (genes c) \<and> genes c ! k then 1 else 0),
                    isOptimal = (\<lambda>f. f = 1),
                    compare = (\<lambda>a b. a - b),
                    isCovered = (\<lambda>c. k < length (genes c) \<and> genes c ! k) \<rparr>"

text \<open>
  A concrete random search: two goals, a generator that always yields the bit string
  \<open>[True, True]\<close> (as a new object each time), and a stopping condition that fires after
  one iteration.
\<close>

definition randomCollaborators :: "(bool, nat) TestGeneratorCollaborators" where
  "randomCollaborators =
     \<lparr> extractCoverageGoals = [(0, singleBit 0), (1, singleBit 1)],
       chromosomeGenerator_get = (\<lambda>w. (bits w [True, True], Suc w)),
       stoppingCondition_isFinished = (\<lambda>its tests w. its \<ge> 1),
       Date_now = (\<lambda>w. w) \<rparr>"

definition randomTestGenerator0 :: "(bool, nat) RandomTestGenerator" where
  "randomTestGenerator0 =
     \<lparr> rtg_startTime = 0, rtg_iterations = 0, rtg_tests = [], rtg_fitnessFunctions = [],
       rtg_world = 0 \<rparr>"

text \<open>
  A second random search, over three passes: three goals, a generator whose first
  chromosome covers two of them, whose second covers nothing new and whose third covers
  the last goal, and a stopping condition that fires after three iterations.
\<close>

definition randomCollaborators3 :: "(bool, nat) TestGeneratorCollaborators" where
  "randomCollaborators3 =
     \<lparr> extractCoverageGoals = [(0, singleBit 0), (2, singleBit 2), (3, singleBit 3)],
       chromosomeGenerator_get =
         (\<lambda>w. (bits w (if w = 0 then [True, False, True, False]
                         else if w = 10 then [True, False, False, False]
                         else [False, False, False, True]), w + 10)),
       stoppingCondition_isFinished = (\<lambda>its tests w. its \<ge> 3),
       Date_now = (\<lambda>w. w) \<rparr>"

text \<open>
  Modelled from the spec: the OneMax fitness function over bit strings, whose source is
  missing (fitness = number of true genes); used for concrete inputs. \<open>oneMax n\<close> is
  optimal at fitness \<open>n\<close> and compares by difference.
\<close>

definition oneMax :: "nat \<Rightarrow> bool FitnessFunction" where
  "oneMax n = \<lparr> getFitness = (\<lambda>c. real (length (filter id (genes c)))),
                 isOptimal = (\<lambda>f. f = real n),
                 compare = (\<lambda>a b. a - b),
                 isCovered = (\<lambda>c. length (filter id (genes c)) = n) \<rparr>"

text \<open>
  Collaborators for concrete runs with population size four: the generator yields the
  four chromosomes \<open>population4\<close>, the random index is always 1, and \<open>nextDouble\<close> is
  always 0.9, above both probabilities, so neither crossover nor mutation takes place.
  The stopping condition fires after one iteration.
\<close>

definition population4 :: "bool Chromosome list" where
  "population4 = [bits 10 [True, True, True, False], bits 11 [True, False, False, False],
                  bits 12 [True, True, False, False], bits 13 [False, False, False, False]]"

definition collaborators4 :: "(bool, nat) Collaborators" where
  "collaborators4 =
     \<lparr> getPopulationSize = 4, getCrossoverProbability = 7 / 10, getMutationProbablity = 1 / 10,
       generate = (\<lambda>n w. (population4, w)),
       isFinished = (\<lambda>its best w. its \<ge> 1),
       selectionOperator_apply = (\<lambda>population w. (hd population, w)),
       nextDouble = (\<lambda>w. (9 / 10, w)),
       nextRaw = (\<lambda>w. (1, w)),
       crossover = (\<lambda>a b w. ((a, b), w)),
       mutate = (\<lambda>c w. (c, w)),
       shuffle = (\<lambda>xs w. (xs, w)) \<rparr>"

text \<open>
  The combined population of the first iteration of that run: the four parents and,
  four times, the parent at index 1.
\<close>

definition combined4 :: "bool Chromosome list" where
  "combined4 = population4 @ [bits 11 [True, False, False, False], bits 11 [True, False, False, False],
       bits 11 [True, False, False, False], bits 11 [True, False, False, False]]"

text \<open>
  Collaborators for a concrete run with population size two in which every child is a
  new object: the world is a counter of references, \<open>nextDouble\<close> is always 0, below
  both probabilities, the crossover hands its parents on, and the mutation copies the
  genes into a new object. The random index is always 1.
\<close>

definition population2 :: "bool Chromosome list" where
  "population2 = [bits 20 [True, True, False], bits 21 [True, False, False]]"

definition collaborators2 :: "(bool, nat) Collaborators" where
  "collaborators2 =
     \<lparr> getPopulationSize = 2, getCrossoverProbability = 7 / 10, getMutationProbablity = 1 / 10,
       generate = (\<lambda>n w. (population2, w)),
       isFinished = (\<lambda>its best w. its \<ge> 1),
       selectionOperator_apply = (\<lambda>population w. (hd population, w)),
       nextDouble = (\<lambda>w. (0, w)),
       nextRaw = (\<lambda>w. (1, w)),
       crossover = (\<lambda>a b w. ((a, b), w)),
       mutate = (\<lambda>c w. (bits w (genes c), w + 1)),
       shuffle = (\<lambda>xs w. (xs, w)) \<rparr>"

text \<open>
  A configuration in which the five names are all unrecognized, and the properties it
  yields.
\<close>

definition exampleConfiguration :: "(string \<times> json) list" where
  "exampleConfiguration =
     [(''chromosome'', JStr ''zebra''),
      (''population-size'', JNum 10),
      (''chromosome-length'', JNum 5),
      (''crossover'', JObj [(''operator'', JStr ''uniform''), (''probability'', JNum 1)]),
      (''mutation'', JObj [(''operator'', JStr ''swap''), (''probability'', JNum 1)]),
      (''selection'', JObj [(''operator'', JStr ''roulette'')]),
      (''archive'', JObj []),
      (''stopping-condition'',
         JObj [(''type'', JStr ''one-of''),
               (''conditions'',
                  JArr [JObj [(''type'', JStr ''fixed-iteration''), (''iterations'', JNum 100)],
                        JObj [(''type'', JStr ''optimal'')]])]),
      (''integerRange'', JObj [(''min'', JNum 0), (''max'', JNum 7)]),
      (''fitness-function'', JObj [(''type'', JStr ''branch'')])]"

definition exampleProperties :: SearchAlgorithmProperties where
  "exampleProperties =
     \<lparr> properties_populationSize = JNum 10,
       properties_chromosomeLength = JNum 5,
       properties_mutationProbablity = JNum 1,
       properties_crossoverProbability = JNum 1,
       properties_maxMutationCounter = (JUndefined, JUndefined),
       properties_selectionProbabilities = (JUndefined, JUndefined),
       properties_maxArchiveSizes = (JUndefined, JUndefined),
       properties_startOfFocusedPhase = JUndefined,
       properties_stoppingCondition =
         OneOfStoppingCondition [FixedIterationsStoppingCondition (JNum 100),
                                 OptimalSolutionStoppingCondition],
       properties_intRange = Some (JNum 0, JNum 7) \<rparr>"

section \<open>Lemmas\<close>

subsection \<open>The archive\<close>

lemma list_all_update:
  "list_all P al \<Longrightarrow> P (k, v) \<Longrightarrow> list_all P (AList.update k v al)"
  by (induction al) auto

lemma archive_optimal_candidates:
  "archive_optimal F a \<Longrightarrow> map_of F k = Some ff \<Longrightarrow>
   archive_optimal F (snd (updateArchive_candidates k ff cs (bl, a)))"
proof (induction cs arbitrary: bl a)
  case Nil
  then show ?case by simp
next
  case (Cons c cs)
  show ?case
  proof (cases "isOptimal ff (getFitness ff c) \<and> getLength c < bl")
    case True
    with Cons.prems have "archive_optimal F (AList.update k c a)"
      unfolding archive_optimal_def by (intro list_all_update) simp_all
    from Cons.IH [OF this Cons.prems(2)] True show ?thesis by simp
  next
    case False
    with Cons.IH [OF Cons.prems] show ?thesis by auto
  qed
qed

lemma archive_optimal_goal:
  "archive_optimal F a \<Longrightarrow> map_of F (fst e) = Some (snd e) \<Longrightarrow>
   archive_optimal F (updateArchive_goal cs e a)"
  by (simp add: updateArchive_goal_def archive_optimal_candidates)

lemma archive_optimal_fold:
  "archive_optimal F a \<Longrightarrow> \<forall>e \<in> set es. map_of F (fst e) = Some (snd e) \<Longrightarrow>
   archive_optimal F (fold (updateArchive_goal cs) es a)"
  by (induction es arbitrary: a) (simp_all add: archive_optimal_goal)

lemma archive_optimal_updateArchive:
  assumes "distinct (keys F)" and "archive_optimal F a"
  shows "archive_optimal F (updateArchive F a cs)"
proof -
  from assms(1) have "\<forall>e \<in> set F. map_of F (fst e) = Some (snd e)"
    by (auto simp: keys_def)
  with assms(2) show ?thesis
    unfolding updateArchive_def by (rule archive_optimal_fold)
qed

lemma archive_optimal_iteration:
  assumes "distinct (keys F)" and "archive_optimal F (mosa_archive st)"
    and "MOSA_iteration E F st = Inr st'"
  shows "archive_optimal F (mosa_archive st')"
  using assms
  by (auto simp: MOSA_iteration_def Let_def archive_optimal_updateArchive
      split: sum.splits)

lemma archive_optimal_loop:
  assumes "distinct (keys F)"
  shows "archive_optimal F (mosa_archive st) \<Longrightarrow> MOSA_loop E F n st = Inr st' \<Longrightarrow>
         archive_optimal F (mosa_archive st')"
proof (induction n arbitrary: st)
  case 0
  then show ?case by simp
next
  case (Suc n)
  show ?case
  proof (cases "isFinished E (mosa_iterations st) (mosa_bestIndividuals st) (mosa_world st)")
    case True
    with Suc.prems show ?thesis by simp
  next
    case False
    with Suc.prems obtain st1 where it: "MOSA_iteration E F st = Inr st1"
      and rest: "MOSA_loop E F n st1 = Inr st'"
      by (auto split: sum.splits)
    from archive_optimal_iteration [OF assms Suc.prems(1) it] rest show ?thesis
      by (rule Suc.IH)
  qed
qed

lemma arg_min_list_first:
  "xs \<noteq> [] \<Longrightarrow> \<exists>i < length xs. arg_min_list f xs = xs ! i
      \<and> (\<forall>j < length xs. f (xs ! i) \<le> f (xs ! j)) \<and> (\<forall>j < i. f (xs ! i) < f (xs ! j))"
  for f :: "'a \<Rightarrow> nat"
proof (induction xs rule: list_nonempty_induct)
  case (single x)
  then show ?case by simp
next
  case (cons x xs)
  then obtain i where i: "i < length xs" "arg_min_list f xs = xs ! i"
    "\<forall>j < length xs. f (xs ! i) \<le> f (xs ! j)" "\<forall>j < i. f (xs ! i) < f (xs ! j)"
    by blast
  from cons.hyps obtain y ys where xs: "xs = y # ys" by (cases xs) auto
  show ?case
  proof (cases "f x \<le> f (xs ! i)")
    case True
    have "arg_min_list f (x # xs) = x"
      using True i(2) xs by (simp add: Let_def)
    moreover have "\<forall>j < length (x # xs). f x \<le> f ((x # xs) ! j)"
      using True i(3) by (auto simp: nth_Cons split: nat.splits intro: order_trans)
    ultimately show ?thesis by (intro exI [of _ 0]) simp
  next
    case False
    have "arg_min_list f (x # xs) = (x # xs) ! Suc i"
      using False i(2) xs by (simp add: Let_def)
    moreover have "\<forall>j < length (x # xs). f ((x # xs) ! Suc i) \<le> f ((x # xs) ! j)"
      using False i(3) by (auto simp: nth_Cons split: nat.splits)
    moreover have "\<forall>j < Suc i. f ((x # xs) ! Suc i) < f ((x # xs) ! j)"
      using False i(4) by (auto simp: nth_Cons split: nat.splits)
    ultimately show ?thesis using i(1) by (intro exI [of _ "Suc i"]) simp
  qed
qed

lemma arg_min_list_le: "x \<in> set xs \<Longrightarrow> f (arg_min_list f xs) \<le> f x" for f :: "'a \<Rightarrow> nat"
  by (metis arg_min_list_first empty_iff in_set_conv_nth list.set(1))

lemma arg_min_list_drop_second:
  "f d \<le> f c \<Longrightarrow> arg_min_list f (d # c # rest) = arg_min_list f (d # rest)" for f :: "'a \<Rightarrow> nat"
  by (cases rest) (auto simp: Let_def)

lemma arg_min_list_drop_first:
  "f c < f d \<Longrightarrow> arg_min_list f (d # c # rest) = arg_min_list f (c # rest)" for f :: "'a \<Rightarrow> nat"
  using arg_min_list_le [of c "c # rest" f] by (auto simp: Let_def)

lemma candidates_other_key:
  "k' \<noteq> k \<Longrightarrow> map_of (snd (updateArchive_candidates k ff cs (bl, a))) k' = map_of a k'"
  by (induction cs arbitrary: bl a) (auto simp: Let_def update_conv')

lemma candidates_entry:
  assumes "\<forall>c \<in> set cs. getLength c < MAX_SAFE_INTEGER"
    and "bl = (case map_of a k of Some c \<Rightarrow> getLength c | None \<Rightarrow> MAX_SAFE_INTEGER)"
  shows "map_of (snd (updateArchive_candidates k ff cs (bl, a))) k =
      (let pool = current_entry a k @ optimal_candidates ff cs
       in if pool = [] then None else Some (arg_min_list getLength pool))"
  using assms
proof (induction cs arbitrary: bl a)
  case Nil
  then show ?case
    by (auto simp: current_entry_def optimal_candidates_def split: option.splits)
next
  case (Cons c cs)
  show ?case
  proof (cases "isOptimal ff (getFitness ff c) \<and> getLength c < bl")
    case True
    have "map_of (snd (updateArchive_candidates k ff cs (getLength c, AList.update k c a))) k =
      (let pool = current_entry (AList.update k c a) k @ optimal_candidates ff cs
       in if pool = [] then None else Some (arg_min_list getLength pool))"
      using Cons.prems by (intro Cons.IH) (simp_all add: update_conv')
    then show ?thesis
      using True Cons.prems(2)
      by (auto simp: current_entry_def optimal_candidates_def update_conv' Let_def
          arg_min_list_drop_first split: option.splits simp del: arg_min_list.simps)
  next
    case False
    have ih: "map_of (snd (updateArchive_candidates k ff cs (bl, a))) k =
      (let pool = current_entry a k @ optimal_candidates ff cs
       in if pool = [] then None else Some (arg_min_list getLength pool))"
      using Cons.prems by (intro Cons.IH) simp_all
    show ?thesis
    proof (cases "isOptimal ff (getFitness ff c)")
      case True
      with False have ge: "bl \<le> getLength c" by simp
      with Cons.prems obtain d where d: "map_of a k = Some d" "bl = getLength d"
        by (cases "map_of a k") auto
      with ih True False ge show ?thesis
        by (simp add: current_entry_def optimal_candidates_def Let_def
            arg_min_list_drop_second del: arg_min_list.simps)
    next
      case nopt: False
      with ih show ?thesis
        by (simp add: optimal_candidates_def)
    qed
  qed
qed

lemma goal_entry:
  assumes "\<forall>c \<in> set cs. getLength c < MAX_SAFE_INTEGER"
  shows "map_of (updateArchive_goal cs (k, ff) a) k =
      (let pool = current_entry a k @ optimal_candidates ff cs
       in if pool = [] then None else Some (arg_min_list getLength pool))"
  unfolding updateArchive_goal_def Let_def fst_conv snd_conv
  using candidates_entry [OF assms refl, where a=a and k=k and ff=ff] by (simp add: Let_def)

lemma goal_other_key:
  "k' \<noteq> fst e \<Longrightarrow> map_of (updateArchive_goal cs e a) k' = map_of a k'"
  by (simp add: updateArchive_goal_def candidates_other_key)

lemma fold_goal_other_key:
  "k' \<notin> fst ` set es \<Longrightarrow> map_of (fold (updateArchive_goal cs) es a) k' = map_of a k'"
  by (induction es arbitrary: a) (auto simp: goal_other_key)

lemma updateArchive_entry:
  assumes "distinct (keys F)" and "(k, ff) \<in> set F"
    and "\<forall>c \<in> set cs. getLength c < MAX_SAFE_INTEGER"
  shows "map_of (updateArchive F a cs) k =
      (let pool = current_entry a k @ optimal_candidates ff cs
       in if pool = [] then None else Some (arg_min_list getLength pool))"
proof -
  from assms(2) obtain F1 F2 where F: "F = F1 @ (k, ff) # F2"
    by (auto simp: in_set_conv_decomp)
  with assms(1) have n1: "k \<notin> fst ` set F1" and n2: "k \<notin> fst ` set F2"
    by (auto simp: keys_def)
  have "map_of (updateArchive F a cs) k
      = map_of (updateArchive_goal cs (k, ff) (fold (updateArchive_goal cs) F1 a)) k"
    by (simp add: updateArchive_def F fold_goal_other_key [OF n2])
  also have "\<dots> = (let pool = current_entry (fold (updateArchive_goal cs) F1 a) k
                              @ optimal_candidates ff cs
       in if pool = [] then None else Some (arg_min_list getLength pool))"
    by (rule goal_entry [OF assms(3)])
  also have "current_entry (fold (updateArchive_goal cs) F1 a) k = current_entry a k"
    by (simp add: current_entry_def fold_goal_other_key [OF n1])
  finally show ?thesis .
qed

subsection \<open>Dominance\<close>

lemma dominates_loop_iff:
  "dominates_loop A a b F d =
     ((\<forall>ff \<in> set (uncovered F A). 0 \<le> compareFitness ff a b)
      \<and> (d \<or> (\<exists>ff \<in> set (uncovered F A). 0 < compareFitness ff a b)))"
proof (induction F arbitrary: d)
  case Nil
  then show ?case by (simp add: uncovered_def)
next
  case (Cons e F)
  obtain k ff where e: "e = (k, ff)" by (cases e)
  show ?case
  proof (cases "has A k")
    case True
    then show ?thesis
      using Cons.IH [of d] by (simp add: e uncovered_def)
  next
    case False
    have u: "uncovered ((k, ff) # F) A = ff # uncovered F A"
      using False by (simp add: uncovered_def)
    consider (lt) "compareFitness ff a b < 0" | (gt) "0 < compareFitness ff a b"
      | (eq) "compareFitness ff a b = 0" by linarith
    then show ?thesis
    proof cases
      case lt
      then show ?thesis
        using False by (auto simp: e u compareFitness_def Let_def)
    next
      case gt
      then show ?thesis
        using False Cons.IH [of True] by (auto simp: e u compareFitness_def Let_def)
    next
      case eq
      then show ?thesis
        using False Cons.IH [of d] by (auto simp: e u compareFitness_def Let_def)
    qed
  qed
qed

lemma dominates_iff:
  "dominates F A a b =
     ((\<forall>ff \<in> set (uncovered F A). 0 \<le> compareFitness ff a b)
      \<and> (\<exists>ff \<in> set (uncovered F A). 0 < compareFitness ff a b))"
  by (simp add: dominates_def dominates_loop_iff)

subsection \<open>Preference sorting\<close>

lemma total_order_compareD:
  assumes "total_order_compare (compare ff)"
  shows "(0 < compareFitness ff a b) = (compareFitness ff b a < 0)"
    and "0 \<le> compareFitness ff a b \<Longrightarrow> 0 \<le> compareFitness ff b c \<Longrightarrow> 0 \<le> compareFitness ff a c"
    and "compareFitness ff a a = 0"
    and "compareFitness ff a b = 0 \<Longrightarrow> compareFitness ff b a = 0"
proof -
  from assms have anti: "\<And>x y. (0 < compare ff x y) = (compare ff y x < 0)"
    and trans: "\<And>x y z. 0 \<le> compare ff x y \<Longrightarrow> 0 \<le> compare ff y z \<Longrightarrow> 0 \<le> compare ff x z"
    unfolding total_order_compare_def by blast+
  show "(0 < compareFitness ff a b) = (compareFitness ff b a < 0)"
    unfolding compareFitness_def by (rule anti)
  show "0 \<le> compareFitness ff a b \<Longrightarrow> 0 \<le> compareFitness ff b c \<Longrightarrow> 0 \<le> compareFitness ff a c"
    unfolding compareFitness_def by (rule trans)
  show "compareFitness ff a a = 0"
    unfolding compareFitness_def
    using anti [of "getFitness ff a" "getFitness ff a"] by linarith
  show "compareFitness ff a b = 0 \<Longrightarrow> compareFitness ff b a = 0"
    unfolding compareFitness_def
    using anti [of "getFitness ff a" "getFitness ff b"] anti [of "getFitness ff b" "getFitness ff a"]
    by linarith
qed

lemma scan_fold:
  "bestFitness = getFitness ff best \<Longrightarrow>
   bestChromosome_scan ff cs best bestFitness = fold (\<lambda>c b. if better ff c b then c else b) cs best"
  by (induction cs arbitrary: best bestFitness)
    (simp_all add: better_def compareFitness_def Let_def)

lemma preferred_single:
  "total_order_compare (compare ff) \<Longrightarrow> preferred ff [c] 0"
  by (simp add: preferred_def total_order_compareD(3))

lemma preferred_keep:
  assumes t: "total_order_compare (compare ff)"
    and p: "preferred ff P i" and nb: "\<not> better ff c (P ! i)"
  shows "preferred ff (P @ [c]) i"
proof -
  let ?b = "P ! i"
  from p have i: "i < length P" by (simp add: preferred_def)
  from nb have 1: "\<not> 0 < compareFitness ff c ?b"
    and 2: "compareFitness ff c ?b = 0 \<Longrightarrow> getLength ?b \<le> getLength c"
    by (auto simp: better_def)
  from 1 total_order_compareD(1) [OF t, of ?b c] total_order_compareD(1) [OF t, of c ?b]
  have ge: "0 \<le> compareFitness ff ?b c" by linarith
  have eq: "compareFitness ff ?b c = 0 \<Longrightarrow> getLength ?b \<le> getLength c"
    using 2 total_order_compareD(4) [OF t] by blast
  have "0 \<le> compareFitness ff ((P @ [c]) ! i) ((P @ [c]) ! j)
      \<and> (compareFitness ff ((P @ [c]) ! i) ((P @ [c]) ! j) = 0 \<longrightarrow>
           getLength ((P @ [c]) ! i) \<le> getLength ((P @ [c]) ! j)
           \<and> (getLength ((P @ [c]) ! i) = getLength ((P @ [c]) ! j) \<longrightarrow> i \<le> j))"
    if "j < length (P @ [c])" for j
  proof (cases "j < length P")
    case True
    with p i show ?thesis by (simp add: preferred_def nth_append)
  next
    case False
    with that have "j = length P" by simp
    with i ge eq show ?thesis by (simp add: nth_append)
  qed
  with i show ?thesis by (simp add: preferred_def)
qed

lemma preferred_replace:
  assumes t: "total_order_compare (compare ff)"
    and p: "preferred ff P i" and b: "better ff c (P ! i)"
  shows "preferred ff (P @ [c]) (length P)"
proof -
  let ?b = "P ! i"
  note anti = total_order_compareD(1) [OF t] and trans = total_order_compareD(2) [OF t]
    and refl = total_order_compareD(3) [OF t] and sym = total_order_compareD(4) [OF t]
  from p have i: "i < length P" by (simp add: preferred_def)
  from b have cb: "0 \<le> compareFitness ff c ?b" by (auto simp: better_def)
  have "0 \<le> compareFitness ff c (P ! j)
      \<and> (compareFitness ff c (P ! j) = 0 \<longrightarrow> getLength c < getLength (P ! j))"
    if j: "j < length P" for j
  proof -
    from p j have bj: "0 \<le> compareFitness ff ?b (P ! j)"
      and bj0: "compareFitness ff ?b (P ! j) = 0 \<Longrightarrow> getLength ?b \<le> getLength (P ! j)"
      by (simp_all add: preferred_def)
    have ge: "0 \<le> compareFitness ff c (P ! j)"
      by (rule trans [OF cb bj])
    have "getLength c < getLength (P ! j)" if z: "compareFitness ff c (P ! j) = 0"
    proof -
      from sym [OF z] have "0 \<le> compareFitness ff (P ! j) c" by simp
      from trans [OF this cb] have jb: "0 \<le> compareFitness ff (P ! j) ?b" .
      from trans [OF bj \<open>0 \<le> compareFitness ff (P ! j) c\<close>]
      have bc: "0 \<le> compareFitness ff ?b c" .
      with anti [of c ?b] have "\<not> 0 < compareFitness ff c ?b" by simp
      with b have c0: "compareFitness ff c ?b = 0" and lt: "getLength c < getLength ?b"
        by (auto simp: better_def)
      from jb anti [of ?b "P ! j"] bj have "compareFitness ff ?b (P ! j) = 0" by linarith
      from bj0 [OF this] lt show ?thesis by simp
    qed
    with ge show ?thesis by simp
  qed
  then have "0 \<le> compareFitness ff ((P @ [c]) ! length P) ((P @ [c]) ! j)
      \<and> (compareFitness ff ((P @ [c]) ! length P) ((P @ [c]) ! j) = 0 \<longrightarrow>
           getLength ((P @ [c]) ! length P) \<le> getLength ((P @ [c]) ! j)
           \<and> (getLength ((P @ [c]) ! length P) = getLength ((P @ [c]) ! j) \<longrightarrow> length P \<le> j))"
    if "j < length (P @ [c])" for j
  proof (cases "j < length P")
    case True
    with \<open>\<And>j. j < length P \<Longrightarrow> _\<close> [OF True] show ?thesis
      by (auto simp: nth_append)
  next
    case False
    with that have "j = length P" by simp
    then show ?thesis by (simp add: refl)
  qed
  then show ?thesis by (simp add: preferred_def)
qed

lemma fold_preferred:
  assumes t: "total_order_compare (compare ff)"
  shows "preferred ff P i \<Longrightarrow>
     \<exists>i'. preferred ff (P @ cs) i'
         \<and> fold (\<lambda>c b. if better ff c b then c else b) cs (P ! i) = (P @ cs) ! i'"
proof (induction cs arbitrary: P i)
  case Nil
  then show ?case by auto
next
  case (Cons c cs)
  show ?case
  proof (cases "better ff c (P ! i)")
    case True
    from Cons.IH [OF preferred_replace [OF t Cons.prems True]] True
    show ?thesis by (simp add: nth_append)
  next
    case False
    from Cons.prems have "i < length P" by (simp add: preferred_def)
    with Cons.IH [OF preferred_keep [OF t Cons.prems False]] False
    show ?thesis by (simp add: nth_append)
  qed
qed

lemma scan_preferred:
  assumes "total_order_compare (compare ff)"
  shows "\<exists>i. preferred ff (first # others) i
      \<and> bestChromosome_scan ff others first (getFitness ff first) = (first # others) ! i"
  using fold_preferred [OF assms preferred_single [OF assms], of first others]
  by (simp add: scan_fold)

lemma preferred_front_skip:
  "preferred_front G R bf \<Longrightarrow> preferred ff R i \<Longrightarrow> R ! i \<in> set bf
     \<Longrightarrow> preferred_front (insert ff G) R bf"
  unfolding preferred_front_def by blast

lemma preferred_front_add:
  "preferred_front G R bf \<Longrightarrow> preferred ff R i \<Longrightarrow> R ! i \<notin> set bf
     \<Longrightarrow> preferred_front (insert ff G) R (bf @ [R ! i])"
  unfolding preferred_front_def by (simp add: Bex_def) blast

lemma preferenceSorting_goals_front:
  assumes "\<forall>ff \<in> set (values_of F). total_order_compare (compare ff)"
    and "R \<noteq> []"
    and "preferred_front G R bf" and "mset rest + mset bf = mset R"
  shows "\<exists>bf' rest'. preferenceSorting_goals A R F (bf, rest) = Inr (bf', rest')
      \<and> preferred_front (G \<union> set (uncovered F A)) R bf'
      \<and> mset rest' + mset bf' = mset R"
  using assms(1,3,4)
proof (induction F arbitrary: G bf rest)
  case Nil
  then show ?case by (simp add: uncovered_def)
next
  case (Cons e F)
  obtain k ff where e: "e = (k, ff)" by (cases e)
  from assms(2) obtain first others where R: "R = first # others" by (cases R) auto
  from Cons.prems(1) have tF: "\<forall>ff \<in> set (values_of F). total_order_compare (compare ff)"
    and t: "total_order_compare (compare ff)"
    by (simp_all add: values_of_def e)
  show ?case
  proof (cases "has A k")
    case True
    then have "uncovered (e # F) A = uncovered F A" by (simp add: uncovered_def e)
    with Cons.IH [OF tF Cons.prems(2,3)] True show ?thesis by (simp add: e)
  next
    case False
    then have u: "G \<union> set (uncovered ((k, ff) # F) A) = insert ff G \<union> set (uncovered F A)"
      by (simp add: uncovered_def)
    from scan_preferred [OF t, of first others] obtain i where i: "preferred ff R i"
      and b: "bestChromosome_scan ff others first (getFitness ff first) = R ! i"
      by (auto simp: R)
    show ?thesis
    proof (cases "R ! i \<in> set bf")
      case True
      from Cons.IH [OF tF preferred_front_skip [OF Cons.prems(2) i True] Cons.prems(3)]
      show ?thesis
        using False True b by (simp add: e R u)
    next
      case nin: False
      from i have "R ! i \<in> set R" by (simp add: preferred_def)
      then have "R ! i \<in># mset rest + mset bf" by (simp add: Cons.prems(3))
      with nin have "R ! i \<in># mset rest" by simp
      then have "mset (remove1 (R ! i) rest) + mset (bf @ [R ! i]) = mset rest + mset bf"
        by simp
      then have m: "mset (remove1 (R ! i) rest) + mset (bf @ [R ! i]) = mset R"
        by (simp only: Cons.prems(3))
      from Cons.IH [OF tF preferred_front_add [OF Cons.prems(2) i nin] m]
      show ?thesis
        using False nin b by (simp add: e R u Let_def)
    qed
  qed
qed

subsection \<open>The fronts of fastNonDominatedSorting\<close>

lemma dominates_asym:
  assumes "\<forall>ff \<in> set (values_of F). total_order_compare (compare ff)"
    and "dominates F A a b"
  shows "\<not> dominates F A b a"
proof
  assume ba: "dominates F A b a"
  from assms(2) obtain ff where ff: "ff \<in> set (uncovered F A)" "0 < compareFitness ff a b"
    by (auto simp: dominates_iff)
  from ff(1) assms(1) have t: "total_order_compare (compare ff)"
    by (auto simp: uncovered_def values_of_def)
  from total_order_compareD(1) [OF t, of a b] ff(2) have "compareFitness ff b a < 0" by simp
  moreover from ba ff(1) have "0 \<le> compareFitness ff b a" by (simp add: dominates_iff)
  ultimately show False by simp
qed

lemma dominates_trans:
  assumes "\<forall>ff \<in> set (values_of F). total_order_compare (compare ff)"
    and ab: "dominates F A a b" and bc: "dominates F A b c"
  shows "dominates F A a c"
proof -
  have t: "total_order_compare (compare ff)" if "ff \<in> set (uncovered F A)" for ff
    using assms(1) that by (auto simp: uncovered_def values_of_def)
  have all: "\<forall>ff \<in> set (uncovered F A). 0 \<le> compareFitness ff a c"
    using ab bc total_order_compareD(2) [OF t] by (auto simp: dominates_iff)
  from ab obtain ff where ff: "ff \<in> set (uncovered F A)" "0 < compareFitness ff a b"
    by (auto simp: dominates_iff)
  have "0 < compareFitness ff a c"
  proof (rule ccontr)
    assume "\<not> 0 < compareFitness ff a c"
    with total_order_compareD(1) [OF t [OF ff(1)], of a c]
      total_order_compareD(1) [OF t [OF ff(1)], of c a]
    have "0 \<le> compareFitness ff c a" by linarith
    moreover from bc ff(1) have "0 \<le> compareFitness ff b c" by (auto simp: dominates_iff)
    ultimately have "0 \<le> compareFitness ff b a"
      by (rule total_order_compareD(2) [OF t [OF ff(1)], rotated])
    with total_order_compareD(1) [OF t [OF ff(1)], of a b] ff(2) show False by simp
  qed
  with all ff(1) show ?thesis by (auto simp: dominates_iff)
qed

lemma update_fresh: "k \<notin> fst ` set al \<Longrightarrow> AList.update k v al = al @ [(k, v)]"
  by (induction al) auto

lemma fold_fnds_compare:
  "fold (fnds_compare F A p) qs (dv, dc)
     = (dv @ filter (dominates F A p) qs,
        dc + int (length (filter (\<lambda>q. \<not> dominates F A p q \<and> dominates F A q p) qs)))"
  by (induction qs arbitrary: dv dc) (simp_all add: fnds_compare_def)

lemma fnds_first_eq:
  "fnds_first F A cs p (ff, DV, DC)
     = ((if dominatorCount F A cs p = 0 then ff @ [p] else ff),
        AList.update p (dominatedBy F A cs p) DV,
        AList.update p (dominatorCount F A cs p) DC)"
  by (simp add: fnds_first_def fold_fnds_compare dominatedBy_def dominatorCount_def Let_def)

lemma fold_fnds_first:
  assumes "distinct ps" and "set ps \<inter> fst ` set DV = {}" and "set ps \<inter> fst ` set DC = {}"
  shows "fold (fnds_first F A cs) ps (ff, DV, DC)
     = (ff @ filter (\<lambda>p. dominatorCount F A cs p = 0) ps,
        DV @ map (\<lambda>p. (p, dominatedBy F A cs p)) ps,
        DC @ map (\<lambda>p. (p, dominatorCount F A cs p)) ps)"
  using assms
proof (induction ps arbitrary: ff DV DC)
  case Nil
  then show ?case by simp
next
  case (Cons p ps)
  from Cons.prems have fresh: "p \<notin> fst ` set DV" "p \<notin> fst ` set DC" by auto
  have "fold (fnds_first F A cs) ps
          ((if dominatorCount F A cs p = 0 then ff @ [p] else ff),
           DV @ [(p, dominatedBy F A cs p)], DC @ [(p, dominatorCount F A cs p)])
      = ((if dominatorCount F A cs p = 0 then ff @ [p] else ff)
           @ filter (\<lambda>p. dominatorCount F A cs p = 0) ps,
         (DV @ [(p, dominatedBy F A cs p)]) @ map (\<lambda>p. (p, dominatedBy F A cs p)) ps,
         (DC @ [(p, dominatorCount F A cs p)]) @ map (\<lambda>p. (p, dominatorCount F A cs p)) ps)"
    using Cons.prems by (intro Cons.IH) auto
  then show ?case
    by (simp add: fnds_first_eq update_fresh [OF fresh(1)] update_fresh [OF fresh(2)])
qed

lemma fastNonDominatedSorting_eq:
  assumes "distinct cs"
  shows "fastNonDominatedSorting F A cs
     = fnds_fronts (map (\<lambda>p. (p, dominatedBy F A cs p)) cs)
         (filter (\<lambda>p. dominatorCount F A cs p = 0) cs)
         (map (\<lambda>p. (p, dominatorCount F A cs p)) cs) []"
  unfolding fastNonDominatedSorting_def
  using fold_fnds_first [OF assms, of "[]" "[]" F A cs "[]"] by simp

lemma fnds_release_Some:
  "map_of DC q = Some n \<Longrightarrow>
   fnds_release q (nf, DC) = ((if n = 1 then nf @ [q] else nf), AList.update q (n - 1) DC)"
  by (simp add: fnds_release_def Let_def)

lemma fold_release_keys:
  "set qs \<subseteq> fst ` set DC \<Longrightarrow> map fst (snd (fold fnds_release qs (nf, DC))) = map fst DC"
proof (induction qs arbitrary: nf DC)
  case Nil
  then show ?case by simp
next
  case (Cons q qs)
  then obtain n where n: "map_of DC q = Some n"
    by (metis list.set_intros(1) map_of_eq_None_iff not_Some_eq subsetD)
  have k: "map fst (AList.update q (n - 1) DC) = map fst DC"
    using Cons.prems by (simp add: update_keys)
  then have "set qs \<subseteq> fst ` set (AList.update q (n - 1) DC)"
    using Cons.prems by (metis list.set_map set_subset_Cons subset_trans)
  from Cons.IH [OF this] k show ?case
    by (simp add: fnds_release_Some [OF n])
qed

lemma fold_release_counts:
  "set qs \<subseteq> fst ` set DC \<Longrightarrow>
   map_of (snd (fold fnds_release qs (nf, DC))) x
     = map_option (\<lambda>n. n - int (count_list qs x)) (map_of DC x)"
proof (induction qs arbitrary: nf DC)
  case Nil
  then show ?case by (simp add: option.map_ident)
next
  case (Cons q qs)
  then obtain n where n: "map_of DC q = Some n"
    by (metis list.set_intros(1) map_of_eq_None_iff not_Some_eq subsetD)
  have k: "map fst (AList.update q (n - 1) DC) = map fst DC"
    using Cons.prems by (simp add: update_keys)
  then have "set qs \<subseteq> fst ` set (AList.update q (n - 1) DC)"
    using Cons.prems by (metis list.set_map set_subset_Cons subset_trans)
  from Cons.IH [OF this] n show ?case
    by (cases "x = q") (auto simp: fnds_release_Some [OF n] update_conv' map_option_case
        split: option.splits)
qed

lemma fold_release_front:
  assumes "set qs \<subseteq> fst ` set DC"
    and "\<forall>q \<in> set qs. \<exists>n. map_of DC q = Some n \<and> int (count_list qs q) \<le> n"
  shows "\<exists>new. fst (fold fnds_release qs (nf, DC)) = nf @ new
      \<and> distinct new
      \<and> set new = {q \<in> set qs. map_of DC q = Some (int (count_list qs q))}"
  using assms
proof (induction qs arbitrary: nf DC)
  case Nil
  then show ?case by simp
next
  case (Cons q qs)
  from Cons.prems(2) obtain n where n: "map_of DC q = Some n"
    and le: "int (count_list (q # qs) q) \<le> n" by auto
  let ?DC = "AList.update q (n - 1) DC"
  have m: "map_of ?DC x = (if x = q then Some (n - 1) else map_of DC x)" for x
    by (simp add: update_conv')
  have k: "map fst ?DC = map fst DC"
    using Cons.prems(1) by (simp add: update_keys)
  then have sub: "set qs \<subseteq> fst ` set ?DC"
    using Cons.prems(1) by (metis list.set_map set_subset_Cons subset_trans)
  have under: "\<forall>x \<in> set qs. \<exists>n. map_of ?DC x = Some n \<and> int (count_list qs x) \<le> n"
  proof
    fix x assume x: "x \<in> set qs"
    with Cons.prems(2) obtain k where k: "map_of DC x = Some k"
      "int (count_list (q # qs) x) \<le> k" by auto
    show "\<exists>n. map_of ?DC x = Some n \<and> int (count_list qs x) \<le> n"
    proof (cases "x = q")
      case True
      with k n show ?thesis by (simp add: update_conv')
    next
      case False
      with k show ?thesis by (simp add: update_conv')
    qed
  qed
  let ?nf = "if n = 1 then nf @ [q] else nf"
  from Cons.IH [OF sub under, of ?nf] obtain new where
    new: "fst (fold fnds_release qs (?nf, ?DC)) = ?nf @ new" "distinct new"
      "set new = {x \<in> set qs. map_of ?DC x = Some (int (count_list qs x))}"
    by blast
  have target: "{x \<in> set (q # qs). map_of DC x = Some (int (count_list (q # qs) x))}
      = (if n = 1 then {q} else {}) \<union> set new"
  proof (cases "n = 1")
    case True
    with le have c0: "count_list qs q = 0" by simp
    then have nq: "q \<notin> set qs" by (simp add: count_list_0_iff)
    show ?thesis
      using True n nq c0 by (auto simp: new(3) update_conv')
  next
    case False
    show ?thesis
    proof (cases "q \<in> set qs")
      case True
      with False n show ?thesis by (auto simp: new(3) update_conv')
    next
      case nin: False
      then have "count_list qs q = 0" by (simp add: count_list_0_iff)
      with False n nin show ?thesis by (auto simp: new(3) update_conv')
    qed
  qed
  show ?case
  proof (cases "n = 1")
    case True
    with le have "count_list qs q = 0" by simp
    then have "q \<notin> set qs" by (simp add: count_list_0_iff)
    then have "q \<notin> set new" by (simp add: new(3))
    with new True target show ?thesis
      by (intro exI [of _ "q # new"]) (simp add: fnds_release_Some [OF n])
  next
    case False
    with new target show ?thesis
      by (intro exI [of _ new]) (simp add: fnds_release_Some [OF n])
  qed
qed

lemma fold_fold_concat:
  "fold (\<lambda>p acc. fold f (g p) acc) ps acc = fold f (concat (map g ps)) acc"
  by (induction ps arbitrary: acc) simp_all

lemma count_list_filter_distinct:
  "distinct cs \<Longrightarrow> count_list (filter P cs) q = (if q \<in> set cs \<and> P q then 1 else 0)"
  by (induction cs) auto

lemma count_list_concat:
  "count_list (concat xss) q = sum_list (map (\<lambda>xs. count_list xs q) xss)"
  by (induction xss) simp_all

lemma sum_list_indicator:
  "sum_list (map (\<lambda>x. if P x then 1 else 0) xs) = length (filter P xs)"
  by (induction xs) simp_all

lemma count_released:
  assumes "distinct cs" and "distinct front" and "q \<in> set cs"
  shows "count_list (concat (map (dominatedBy F A cs) front)) q
     = card {p \<in> set front. dominates F A p q}"
proof -
  have "count_list (concat (map (dominatedBy F A cs) front)) q
      = sum_list (map (\<lambda>p. if dominates F A p q then 1 else 0) front)"
    using assms(1,3)
    by (simp add: count_list_concat dominatedBy_def count_list_filter_distinct comp_def)
  also have "\<dots> = length (filter (\<lambda>p. dominates F A p q) front)"
    by (rule sum_list_indicator)
  also have "\<dots> = card {p \<in> set front. dominates F A p q}"
    using assms(2) by (simp add: distinct_length_filter Int_def conj_commute)
  finally show ?thesis .
qed

lemma fnds_nextFront_eq:
  assumes "distinct cs" and "set front \<subseteq> set cs"
  shows "fnds_nextFront (map (\<lambda>p. (p, dominatedBy F A cs p)) cs) front DC
     = fold fnds_release (concat (map (dominatedBy F A cs) front)) ([], DC)"
proof -
  have "map_of (map (\<lambda>p. (p, dominatedBy F A cs p)) cs) p = Some (dominatedBy F A cs p)"
    if "p \<in> set cs" for p
    using that by (simp add: map_of_map_restrict)
  then have "fold (\<lambda>p acc. fold fnds_release
        (case map_of (map (\<lambda>p. (p, dominatedBy F A cs p)) cs) p of Some qs \<Rightarrow> qs | None \<Rightarrow> []) acc)
        front acc
      = fold (\<lambda>p acc. fold fnds_release (dominatedBy F A cs p) acc) front acc" for acc
    using assms(2) by (intro fold_cong) auto
  then show ?thesis
    by (simp add: fnds_nextFront_def fold_fold_concat)
qed

lemma waiting_snoc:
  "waiting F A cs (fronts @ [front]) q
     = waiting F A cs fronts q - {p \<in> set front. dominates F A p q}"
  by (auto simp: waiting_def)

lemma set_dominatedBy:
  "set (dominatedBy F A cs p) = {q \<in> set cs. dominates F A p q}"
  by (simp add: dominatedBy_def)

lemma fnds_invariant_step:
  assumes d: "distinct cs"
    and inv: "fnds_invariant F A cs front DC fronts"
  shows "fnds_invariant F A cs
           (fst (fnds_nextFront (map (\<lambda>p. (p, dominatedBy F A cs p)) cs) front DC))
           (snd (fnds_nextFront (map (\<lambda>p. (p, dominatedBy F A cs p)) cs) front DC))
           (fronts @ [front])"
proof -
  let ?qs = "concat (map (dominatedBy F A cs) front)"
  let ?res = "fold fnds_release ?qs ([], DC)"
  let ?rel = "\<lambda>q. {p \<in> set front. dominates F A p q}"
  from inv have keys: "map fst DC = cs"
    and dist: "distinct (concat fronts @ front)"
    and sub: "set (concat fronts @ front) \<subseteq> set cs"
    and cnt: "\<And>q. q \<in> set cs \<Longrightarrow> map_of DC q = Some (int (card (waiting F A cs fronts q)))"
    and fr: "set front = {q \<in> set cs - set (concat fronts). map_of DC q = Some 0}"
    and processed: "\<And>q. q \<in> set (concat fronts) \<Longrightarrow> map_of DC q = Some 0"
    unfolding fnds_invariant_def by blast+
  from sub have fsub: "set front \<subseteq> set cs" by simp
  from dist have dfront: "distinct front" by simp
  have eq: "fnds_nextFront (map (\<lambda>p. (p, dominatedBy F A cs p)) cs) front DC = ?res"
    by (rule fnds_nextFront_eq [OF d fsub])
  have qsub: "set ?qs \<subseteq> set cs" by (simp add: set_dominatedBy) blast
  have kset: "fst ` set DC = set cs"
    using keys by (metis list.set_map)
  have qkeys: "set ?qs \<subseteq> fst ` set DC" using qsub kset by simp
  have rel: "count_list ?qs q = card (?rel q)" if "q \<in> set cs" for q
    by (rule count_released [OF d dfront that])
  have fin: "finite (waiting F A cs fronts q)" for q
    by (simp add: waiting_def)
  have relsub: "?rel q \<subseteq> waiting F A cs fronts q" for q
    using fsub dist by (auto simp: waiting_def)
  have le: "card (?rel q) \<le> card (waiting F A cs fronts q)" for q
    by (rule card_mono [OF fin relsub])
  have diff: "card (waiting F A cs (fronts @ [front]) q)
      = card (waiting F A cs fronts q) - card (?rel q)" for q
    unfolding waiting_snoc
    by (rule card_Diff_subset [OF finite_subset [OF relsub fin] relsub])
  have under: "\<forall>q \<in> set ?qs. \<exists>n. map_of DC q = Some n \<and> int (count_list ?qs q) \<le> n"
  proof
    fix q assume "q \<in> set ?qs"
    with qsub have q: "q \<in> set cs" by auto
    from cnt [OF q] rel [OF q] le [of q]
    show "\<exists>n. map_of DC q = Some n \<and> int (count_list ?qs q) \<le> n" by simp
  qed
  from fold_release_front [OF qkeys under, of "[]"] obtain new where
    new: "fst ?res = new" "distinct new"
      "set new = {q \<in> set ?qs. map_of DC q = Some (int (count_list ?qs q))}"
    by auto
  have keys': "map fst (snd ?res) = cs"
    using fold_release_keys [OF qkeys, of "[]"] keys by simp
  have cnt': "map_of (snd ?res) q = Some (int (card (waiting F A cs (fronts @ [front]) q)))"
    if q: "q \<in> set cs" for q
    using fold_release_counts [OF qkeys, of "[]" q] cnt [OF q] rel [OF q] le [of q]
    by (simp add: diff)
  have zero: "card (waiting F A cs fronts q) = 0" if "q \<in> set (concat fronts @ front)" for q
  proof -
    from that sub have q: "q \<in> set cs" by auto
    from that fr processed have "map_of DC q = Some 0" by auto
    with cnt [OF q] show ?thesis by simp
  qed
  have qs_set: "set ?qs = (\<Union>p \<in> set front. {q \<in> set cs. dominates F A p q})"
    by (simp add: set_dominatedBy)
  have qs_iff: "q \<in> set ?qs \<longleftrightarrow> q \<in> set cs \<and> ?rel q \<noteq> {}" for q
    unfolding qs_set by blast
  have new_iff: "q \<in> set new \<longleftrightarrow>
      q \<in> set cs \<and> q \<notin> set (concat fronts @ front)
      \<and> card (waiting F A cs (fronts @ [front]) q) = 0" for q
  proof
    assume "q \<in> set new"
    then have qs: "q \<in> set ?qs" and m: "map_of DC q = Some (int (count_list ?qs q))"
      by (simp_all add: new(3))
    from qs qs_iff [of q] have q: "q \<in> set cs" and ne: "?rel q \<noteq> {}" by blast+
    from m cnt [OF q] rel [OF q] have c: "card (waiting F A cs fronts q) = card (?rel q)"
      by simp
    from ne have "card (?rel q) \<noteq> 0" by simp
    with c zero [of q] have "q \<notin> set (concat fronts @ front)" by auto
    with q c diff [of q] show "q \<in> set cs \<and> q \<notin> set (concat fronts @ front)
      \<and> card (waiting F A cs (fronts @ [front]) q) = 0" by simp
  next
    assume a: "q \<in> set cs \<and> q \<notin> set (concat fronts @ front)
      \<and> card (waiting F A cs (fronts @ [front]) q) = 0"
    then have q: "q \<in> set cs" by simp
    from a fr cnt [OF q] have "card (waiting F A cs fronts q) \<noteq> 0" by auto
    with a diff [of q] le [of q] have c: "card (waiting F A cs fronts q) = card (?rel q)"
      and "card (?rel q) \<noteq> 0" by auto
    then have "?rel q \<noteq> {}" by auto
    with q qs_iff [of q] have "q \<in> set ?qs" by blast
    with cnt [OF q] rel [OF q] c show "q \<in> set new" by (simp add: new(3))
  qed
  have 1: "distinct (concat (fronts @ [front]) @ new)"
    using dist new(2) new_iff by auto
  have 2: "set (concat (fronts @ [front]) @ new) \<subseteq> set cs"
    using sub new_iff by auto
  have 3: "set new = {q \<in> set cs - set (concat (fronts @ [front])).
                       map_of (snd ?res) q = Some 0}"
    using new_iff cnt' by auto
  have 4: "\<forall>q \<in> set (concat (fronts @ [front])). map_of (snd ?res) q = Some 0"
  proof
    fix q assume q: "q \<in> set (concat (fronts @ [front]))"
    with sub have qc: "q \<in> set cs" by auto
    from q zero [of q] diff [of q] have "card (waiting F A cs (fronts @ [front]) q) = 0"
      by simp
    with cnt' [OF qc] show "map_of (snd ?res) q = Some 0" by simp
  qed
  show ?thesis
    unfolding eq new(1) fnds_invariant_def
    using keys' 1 2 3 4 cnt' by blast
qed

lemma fnds_invariant_init:
  assumes d: "distinct cs"
    and asym: "\<And>a b. dominates F A a b \<Longrightarrow> \<not> dominates F A b a"
  shows "fnds_invariant F A cs (filter (\<lambda>p. dominatorCount F A cs p = 0) cs)
           (map (\<lambda>p. (p, dominatorCount F A cs p)) cs) []"
proof -
  let ?DC = "map (\<lambda>p. (p, dominatorCount F A cs p)) cs"
  have look: "map_of ?DC q = Some (dominatorCount F A cs q)" if "q \<in> set cs" for q
    using that by (simp add: map_of_map_restrict)
  have "(\<lambda>p. \<not> dominates F A q p \<and> dominates F A p q) = (\<lambda>p. dominates F A p q)" for q
    using asym by blast
  then have "dominatorCount F A cs q = int (length (filter (\<lambda>p. dominates F A p q) cs))" for q
    by (simp add: dominatorCount_def)
  also have "\<dots> q = int (card (waiting F A cs [] q))" for q
    using d by (simp add: distinct_length_filter waiting_def Int_def conj_commute)
  finally have dc: "dominatorCount F A cs q = int (card (waiting F A cs [] q))" for q .
  have 1: "map fst ?DC = cs" by (simp add: comp_def)
  have 2: "\<forall>q \<in> set cs. map_of ?DC q = Some (int (card (waiting F A cs [] q)))"
    using look dc by simp
  have 3: "set (filter (\<lambda>p. dominatorCount F A cs p = 0) cs)
      = {q \<in> set cs - set (concat []). map_of ?DC q = Some 0}"
    using look by auto
  show ?thesis
    unfolding fnds_invariant_def using 1 2 3 d by simp
qed

lemma minimal_element:
  assumes "finite S" and "S \<noteq> {}"
    and asym: "\<And>a b. rel a b \<Longrightarrow> \<not> rel b a"
    and trans: "\<And>a b c. rel a b \<Longrightarrow> rel b c \<Longrightarrow> rel a c"
  shows "\<exists>m \<in> S. \<forall>p \<in> S. \<not> rel p m"
  using assms(1,2)
proof (induction rule: finite_ne_induct)
  case (singleton x)
  from asym [of x x] show ?case by blast
next
  case (insert x S)
  then obtain m where m: "m \<in> S" "\<forall>p \<in> S. \<not> rel p m" by blast
  show ?case
  proof (cases "rel x m")
    case True
    have "\<not> rel p x" if "p \<in> S" for p
    proof
      assume "rel p x"
      from trans [OF this True] m(2) that show False by blast
    qed
    with asym [of x x] show ?thesis by blast
  next
    case False
    with m show ?thesis by blast
  qed
qed

lemma fnds_invariant_exit:
  assumes inv: "fnds_invariant F A cs [] DC fronts"
    and asym: "\<And>a b. dominates F A a b \<Longrightarrow> \<not> dominates F A b a"
    and trans: "\<And>a b c. dominates F A a b \<Longrightarrow> dominates F A b c \<Longrightarrow> dominates F A a c"
  shows "distinct (concat fronts) \<and> set (concat fronts) = set cs"
proof -
  from inv have dist0: "distinct (concat fronts @ [])"
    and sub0: "set (concat fronts @ []) \<subseteq> set cs"
    and cnt: "\<And>q. q \<in> set cs \<Longrightarrow> map_of DC q = Some (int (card (waiting F A cs fronts q)))"
    and fr0: "set [] = {q \<in> set cs - set (concat fronts). map_of DC q = Some 0}"
    unfolding fnds_invariant_def by blast+
  from dist0 have dist: "distinct (concat fronts)" by simp
  from sub0 have sub: "set (concat fronts) \<subseteq> set cs" by simp
  from fr0 have fr: "{q \<in> set cs - set (concat fronts). map_of DC q = Some 0} = {}"
    by (simp only: list.set(1))
  let ?S = "set cs - set (concat fronts)"
  have "?S = {}"
  proof (rule ccontr)
    assume ne: "?S \<noteq> {}"
    have "finite ?S" by simp
    from minimal_element [OF this ne, of "dominates F A"] asym trans
    obtain m where m: "m \<in> ?S" "\<forall>p \<in> ?S. \<not> dominates F A p m" by blast
    then have "waiting F A cs fronts m = {}" by (auto simp: waiting_def)
    with cnt [of m] m(1) have "map_of DC m = Some 0" by simp
    with m(1) fr show False by blast
  qed
  with sub dist show ?thesis by blast
qed

lemma fnds_fronts_partition:
  assumes d: "distinct cs"
    and asym: "\<And>a b. dominates F A a b \<Longrightarrow> \<not> dominates F A b a"
    and trans: "\<And>a b c. dominates F A a b \<Longrightarrow> dominates F A b c \<Longrightarrow> dominates F A a c"
  shows "DV = map (\<lambda>p. (p, dominatedBy F A cs p)) cs \<Longrightarrow>
     fnds_invariant F A cs front DC fronts \<Longrightarrow>
     distinct (concat (fnds_fronts DV front DC fronts))
     \<and> set (concat (fnds_fronts DV front DC fronts)) = set cs"
proof (induction DV front DC fronts rule: fnds_fronts.induct)
  case (1 DV front DC fronts)
  show ?case
  proof (cases "front = []")
    case True
    have "fnds_fronts DV front DC fronts = fronts"
      using True by (subst fnds_fronts.simps) simp
    moreover from "1.prems"(2) True have "fnds_invariant F A cs [] DC fronts" by simp
    ultimately show ?thesis
      using fnds_invariant_exit [of F A cs DC fronts] asym trans by metis
  next
    case False
    let ?next = "fnds_nextFront DV front DC"
    from False have pos: "0 < length front" by simp
    have unf: "fnds_fronts DV front DC fronts
        = fnds_fronts DV (fst ?next) (snd ?next) (fronts @ [front])"
      using False by (subst fnds_fronts.simps) (simp add: Let_def)
    have "fnds_invariant F A cs (fst ?next) (snd ?next) (fronts @ [front])"
      unfolding "1.prems"(1) by (rule fnds_invariant_step [OF d "1.prems"(2)])
    from "1.IH" [OF pos refl "1.prems"(1) this] show ?thesis
      unfolding unf .
  qed
qed

lemma fastNonDominatedSorting_partition:
  assumes d: "distinct cs"
    and asym: "\<And>a b. dominates F A a b \<Longrightarrow> \<not> dominates F A b a"
    and trans: "\<And>a b c. dominates F A a b \<Longrightarrow> dominates F A b c \<Longrightarrow> dominates F A a c"
  shows "distinct (concat (fastNonDominatedSorting F A cs))
     \<and> set (concat (fastNonDominatedSorting F A cs)) = set cs"
  unfolding fastNonDominatedSorting_eq [OF d]
  by (rule fnds_fronts_partition [OF d asym trans refl fnds_invariant_init [OF d asym]])

lemma fastNonDominatedSorting_length:
  assumes d: "distinct cs"
    and asym: "\<And>a b. dominates F A a b \<Longrightarrow> \<not> dominates F A b a"
    and trans: "\<And>a b c. dominates F A a b \<Longrightarrow> dominates F A b c \<Longrightarrow> dominates F A a c"
  shows "length (concat (fastNonDominatedSorting F A cs)) = length cs"
proof -
  from fastNonDominatedSorting_partition [OF assms]
  have "distinct (concat (fastNonDominatedSorting F A cs))"
    and "set (concat (fastNonDominatedSorting F A cs)) = set cs" by simp_all
  with d show ?thesis by (metis distinct_card)
qed

subsection \<open>Population sizes\<close>

lemma generateOffspringPopulation_loop_size:
  "length offspringPopulation \<le> length parentPopulation \<Longrightarrow>
   length (fst (generateOffspringPopulation_loop E parentPopulation useRankSelection
                  offspringPopulation w)) = length parentPopulation"
proof (induction E parentPopulation useRankSelection offspringPopulation w
    rule: generateOffspringPopulation_loop.induct)
  case (1 E parentPopulation useRankSelection offspringPopulation w)
  show ?case
  proof (cases "length offspringPopulation < length parentPopulation")
    case True
    let ?children = "breed E parentPopulation useRankSelection w"
    let ?offspring1 = "offspringPopulation @ [fst (fst ?children)]"
    let ?offspring2 = "if length ?offspring1 < length parentPopulation
                       then ?offspring1 @ [snd (fst ?children)] else ?offspring1"
    from True have "length ?offspring2 \<le> length parentPopulation" by simp
    from "1.IH" [OF True refl refl refl this] True show ?thesis
      by (simp add: Let_def del: generateOffspringPopulation_loop.simps
          add: generateOffspringPopulation_loop.simps [of E parentPopulation useRankSelection offspringPopulation w])
  next
    case False
    with "1.prems" show ?thesis by simp
  qed
qed

lemma fill_parentPopulation_le:
  "length parentPopulation \<le> getPopulationSize E \<Longrightarrow>
   length (fst (fill_parentPopulation E F fronts parentPopulation w)) \<le> getPopulationSize E"
  by (induction fronts arbitrary: parentPopulation w) (auto simp: Let_def)

lemma bestChromosome_scan_mem:
  "bestChromosome_scan ff cs b f \<in> insert b (set cs)"
  by (induction cs arbitrary: b f) (auto simp: Let_def)

lemma preferenceSorting_goals_mset:
  "preferenceSorting_goals A R F (bf, rest) = Inr (bf', rest') \<Longrightarrow>
   mset rest + mset bf = mset R \<Longrightarrow> mset rest' + mset bf' = mset R"
proof (induction F arbitrary: bf rest)
  case Nil
  then show ?case by simp
next
  case (Cons e F)
  obtain k ff where e: "e = (k, ff)" by (cases e)
  show ?case
  proof (cases "has A k")
    case True
    with Cons.prems(1) have "preferenceSorting_goals A R F (bf, rest) = Inr (bf', rest')"
      by (simp add: e)
    from Cons.IH [OF this Cons.prems(2)] show ?thesis .
  next
    case False
    with Cons.prems(1) obtain first others where R: "R = first # others"
      by (cases R) (simp_all add: e)
    let ?best = "bestChromosome_scan ff others first (getFitness ff first)"
    have mem: "?best \<in> set R"
      using bestChromosome_scan_mem [of ff others first "getFitness ff first"] by (simp add: R)
    show ?thesis
    proof (cases "?best \<in> set bf")
      case True
      with Cons.prems(1) False
      have "preferenceSorting_goals A R F (bf, rest) = Inr (bf', rest')"
        by (simp add: e R Let_def)
      from Cons.IH [OF this Cons.prems(2)] show ?thesis .
    next
      case nb: False
      with Cons.prems(1) False
      have run: "preferenceSorting_goals A R F (bf @ [?best], remove1 ?best rest)
          = Inr (bf', rest')"
        by (simp add: e R Let_def)
      from mem have "?best \<in># mset R" by simp
      with Cons.prems(2) nb have "?best \<in># mset rest"
        by (metis in_multiset_in_set union_iff)
      then have "mset (remove1 ?best rest) + mset (bf @ [?best]) = mset rest + mset bf"
        by simp
      with Cons.prems(2) have "mset (remove1 ?best rest) + mset (bf @ [?best]) = mset R"
        by simp
      from Cons.IH [OF run this] show ?thesis .
    qed
  qed
qed

lemma distinct_part:
  assumes "distinct R" and "mset rest + mset bf = mset R"
  shows "distinct rest"
proof -
  have "count (mset rest) x \<le> count (mset R) x" for x
    by (simp flip: assms(2))
  moreover from assms(1) have "count (mset R) x \<le> 1" for x
    by (simp add: distinct_count_atmost_1)
  ultimately have "count (mset rest) x \<le> 1" for x
    using le_trans by blast
  then show ?thesis
    by (simp add: distinct_count_atmost_1) (metis le_antisym count_greater_eq_one_iff set_mset_mset One_nat_def)
qed

lemma preferenceSorting_length:
  assumes t: "\<forall>ff \<in> set (values_of F). total_order_compare (compare ff)"
    and d: "distinct R"
    and run: "preferenceSorting E F A R = Inr fronts"
  shows "length (concat fronts) = length R"
proof -
  from run obtain bf rest where g: "preferenceSorting_goals A R F ([], R) = Inr (bf, rest)"
    by (auto simp: preferenceSorting_def split: sum.splits)
  from preferenceSorting_goals_mset [OF g] have m: "mset rest + mset bf = mset R" by simp
  from distinct_part [OF d m] have dr: "distinct rest" .
  from m have "size (mset rest + mset bf) = size (mset R)" by simp
  then have len: "length rest + length bf = length R" by simp
  have fl: "length (concat (fastNonDominatedSorting F A rest)) = length rest"
    by (rule fastNonDominatedSorting_length [OF dr dominates_asym [OF t] dominates_trans [OF t]])
  from run g have "fronts = (if length bf > 0 then [bf] else [])
      @ (if length bf > getPopulationSize E then [rest] else fastNonDominatedSorting F A rest)"
    by (simp add: preferenceSorting_def)
  with fl len show ?thesis by auto
qed

lemma subVectorDominanceSorting_length:
  "length (fst (subVectorDominanceSorting E F front w)) = length (fst (shuffle E front w))"
  by (simp add: subVectorDominanceSorting_def Let_def)

lemma fill_parentPopulation_length:
  assumes "\<And>front w. length (fst (shuffle E front w)) = length front"
  shows "length parentPopulation \<le> getPopulationSize E \<Longrightarrow>
     length (fst (fill_parentPopulation E F fronts parentPopulation w))
       = min (getPopulationSize E) (length parentPopulation + length (concat fronts))"
proof (induction fronts arbitrary: parentPopulation w)
  case Nil
  then show ?case by simp
next
  case (Cons front fronts)
  let ?sorted = "subVectorDominanceSorting E F front w"
  have l: "length (fst ?sorted) = length front"
    by (simp add: subVectorDominanceSorting_length assms)
  show ?case
  proof (cases "length parentPopulation + length front \<le> getPopulationSize E")
    case True
    then have "length (parentPopulation @ fst ?sorted) \<le> getPopulationSize E"
      by (simp add: l)
    from Cons.IH [OF this, of "snd ?sorted"] True show ?thesis
      by (simp add: Let_def l add.assoc)
  next
    case False
    with Cons.prems show ?thesis
      by (simp add: Let_def l)
  qed
qed

subsection \<open>The crossover\<close>

lemma cutPoint_le: "0 \<le> r \<Longrightarrow> r \<le> 1 \<Longrightarrow> cutPoint r n \<le> n"
proof -
  assume r: "0 \<le> r" "r \<le> 1"
  then have "r * real n \<le> real n"
    by (simp add: mult_left_le_one_le)
  then have "\<lfloor>r * real n\<rfloor> \<le> int n"
    by (simp add: floor_le_iff)
  then show ?thesis by (simp add: cutPoint_def)
qed

lemma cutPoint_mono: "0 \<le> r \<Longrightarrow> m \<le> n \<Longrightarrow> cutPoint r m \<le> cutPoint r n"
  unfolding cutPoint_def
  by (intro nat_mono floor_mono mult_left_mono) simp_all

lemma cutPoint_diff:
  assumes "0 \<le> r" "r \<le> 1" "m \<le> n"
  shows "cutPoint r n \<le> cutPoint r m + (n - m)"
proof -
  have "r * real n = r * real m + r * real (n - m)"
    using assms(3) by (simp add: algebra_simps)
  also have "\<dots> \<le> r * real m + real (n - m)"
    using assms(1,2) by (simp add: mult_left_le_one_le)
  finally have "\<lfloor>r * real n\<rfloor> \<le> \<lfloor>r * real m + real (n - m)\<rfloor>"
    by (rule floor_mono)
  also have "\<dots> = \<lfloor>r * real m\<rfloor> + int (n - m)"
    by (metis floor_add_int of_int_of_nat_eq)
  finally have "nat \<lfloor>r * real n\<rfloor> \<le> nat (\<lfloor>r * real m\<rfloor> + int (n - m))"
    by (rule nat_mono)
  also have "\<dots> = nat \<lfloor>r * real m\<rfloor> + (n - m)"
    using assms(1) by (simp add: nat_add_distrib)
  finally show ?thesis by (simp add: cutPoint_def)
qed

lemma offspring_length_le:
  assumes "0 \<le> r" "r \<le> 1"
  shows "cutPoint r m + (n - cutPoint r n) \<le> max m n"
proof (cases "m \<le> n")
  case True
  from cutPoint_mono [OF assms(1) True] cutPoint_le [OF assms, of n] True
  show ?thesis by simp
next
  case False
  then have nm: "n \<le> m" by simp
  from cutPoint_diff [OF assms nm] cutPoint_le [OF assms, of n] nm
  show ?thesis by simp
qed

lemma mset_swap_tails:
  "mset (take i xs @ drop j ys) + mset (take j ys @ drop i xs) = mset xs + mset ys"
proof -
  have "mset (take i xs) + mset (drop i xs) = mset xs"
    by (metis append_take_drop_id mset_append)
  moreover have "mset (take j ys) + mset (drop j ys) = mset ys"
    by (metis append_take_drop_id mset_append)
  ultimately show ?thesis by (simp add: ac_simps) (metis add.assoc add.left_commute)
qed

subsection \<open>Random search\<close>

lemma fold_cover:
  "fold (generateTests_cover c) U (ts, S, C)
     = (ts @ map (\<lambda>_. c) (filter (\<lambda>ff. isCovered (snd ff) c) U),
        S @ map (\<lambda>_. WhiskerTest c) (filter (\<lambda>ff. isCovered (snd ff) c) U),
        C @ filter (\<lambda>ff. isCovered (snd ff) c) U)"
  by (induction U arbitrary: ts S C) (simp_all add: generateTests_cover_def)

lemma remove_goal_filter:
  "distinct (map fst V) \<Longrightarrow> remove_goal k V = filter (\<lambda>e. fst e \<noteq> k) V"
proof (induction V)
  case Nil
  then show ?case by simp
next
  case (Cons e V)
  show ?case
  proof (cases "fst e = k")
    case True
    from Cons.prems have "fst e \<notin> fst ` set V" by simp
    then have "\<forall>x \<in> set V. fst x \<noteq> fst e" by (metis imageI)
    with True have "\<forall>x \<in> set V. fst x \<noteq> k" by simp
    then have "filter (\<lambda>e. fst e \<noteq> k) V = V" by (simp add: filter_id_conv)
    with True show ?thesis by simp
  next
    case False
    with Cons show ?thesis by simp
  qed
qed

lemma fold_remove_goal:
  "distinct (map fst V) \<Longrightarrow>
   fold (\<lambda>ff. remove_goal (fst ff)) C V = filter (\<lambda>e. fst e \<notin> fst ` set C) V"
proof (induction C arbitrary: V)
  case Nil
  then show ?case by simp
next
  case (Cons c C)
  have "distinct (map fst (filter (\<lambda>e. fst e \<noteq> fst c) V))"
    using Cons.prems by (simp add: distinct_map_filter)
  with Cons.IH [of "filter (\<lambda>e. fst e \<noteq> fst c) V"] Cons.prems
  show ?case by (auto simp: remove_goal_filter intro: filter_cong)
qed

lemma remove_covered:
  assumes "distinct (map fst U)"
  shows "fold (\<lambda>ff. remove_goal (fst ff)) (filter P U) U = filter (\<lambda>e. \<not> P e) U"
proof -
  have "fst e \<notin> fst ` set (filter P U) \<longleftrightarrow> \<not> P e" if "e \<in> set U" for e
  proof
    assume "fst e \<notin> fst ` set (filter P U)"
    with that show "\<not> P e" by force
  next
    assume n: "\<not> P e"
    show "fst e \<notin> fst ` set (filter P U)"
    proof
      assume "fst e \<in> fst ` set (filter P U)"
      then obtain e' where e': "e' \<in> set U" "P e'" "fst e' = fst e" by auto
      from eq_key_imp_eq_value [OF assms, of "fst e" "snd e" "snd e'"] that e'
      have "snd e = snd e'" by (metis prod.collapse)
      with e'(3) have "e' = e" by (simp add: prod_eq_iff)
      with e'(2) n show False by simp
    qed
  qed
  then show ?thesis
    unfolding fold_remove_goal [OF assms] by (intro filter_cong) auto
qed

lemma one_per_goal_extend:
  assumes old: "one_per_goal goals C S"
    and K: "set K \<subseteq> set goals" "distinct (map fst K)" "fst ` set C \<inter> fst ` set K = {}"
    and cov: "\<forall>ff \<in> set K. isCovered (snd ff) c"
    and unc: "\<forall>ff \<in> set K. \<forall>t \<in> set S. \<not> isCovered (snd ff) (chromosome t)"
  shows "one_per_goal goals (C @ K) (S @ map (\<lambda>_. WhiskerTest c) K)"
proof -
  from old have len: "length C = length S" and dC: "distinct (map fst C)"
    and sub: "set C \<subseteq> set goals"
    and each: "\<And>i. i < length S \<Longrightarrow> isCovered (snd (C ! i)) (chromosome (S ! i))
            \<and> (\<forall>j < i. isCovered (snd (C ! i)) (chromosome (S ! j)) \<longrightarrow> S ! j = S ! i)"
    by (simp_all add: one_per_goal_def)
  let ?S = "S @ map (\<lambda>_. WhiskerTest c) K"
  have new: "?S ! i = WhiskerTest c" if "length S \<le> i" "i < length ?S" for i
    using that by (simp add: nth_append)
  have "isCovered (snd ((C @ K) ! i)) (chromosome (?S ! i))
        \<and> (\<forall>j < i. isCovered (snd ((C @ K) ! i)) (chromosome (?S ! j)) \<longrightarrow> ?S ! j = ?S ! i)"
    if i: "i < length ?S" for i
  proof (cases "i < length S")
    case True
    with each [OF True] len show ?thesis by (simp add: nth_append)
  next
    case False
    then have ge: "length S \<le> i" by simp
    from i ge len have k: "(C @ K) ! i \<in> set K"
      by (simp add: nth_append)
    have "?S ! j = ?S ! i" if j: "j < i" "isCovered (snd ((C @ K) ! i)) (chromosome (?S ! j))" for j
    proof (cases "j < length S")
      case True
      then have "?S ! j \<in> set S" by (simp add: nth_append)
      with unc k j(2) show ?thesis by blast
    next
      case False
      with j(1) i have "?S ! j = WhiskerTest c" by (intro new) simp_all
      with new [OF ge i] show ?thesis by simp
    qed
    with cov k new [OF ge i] show ?thesis by simp
  qed
  moreover have "distinct (map fst (C @ K))"
    using dC K(2,3) by simp
  ultimately show ?thesis
    using len sub K(1) by (simp add: one_per_goal_def)
qed

lemma newly_covered_Cons:
  "newly_covered U (c # cs) 0 = filter (\<lambda>ff. isCovered (snd ff) c) U"
  "newly_covered U (c # cs) (Suc t)
     = newly_covered (filter (\<lambda>ff. \<not> isCovered (snd ff) c) U) cs t"
  by (auto simp: newly_covered_def intro: filter_cong)

lemma upt_Suc_shift: "[0..<Suc n] = 0 # map Suc [0..<n]"
  by (simp add: upt_conv_Cons map_Suc_upt del: upt_Suc)

lemma expected_suite_Cons:
  "expected_suite U (c # cs)
     = map (\<lambda>_. WhiskerTest c) (filter (\<lambda>ff. isCovered (snd ff) c) U)
       @ expected_suite (filter (\<lambda>ff. \<not> isCovered (snd ff) c) U) cs"
  unfolding expected_suite_def list.size upt_Suc_shift [of "length cs"] add_Suc_right add_0_right
  by (simp add: newly_covered_Cons comp_def map_replicate_const del: upt_Suc)

lemma generateTests_iteration_closed:
  assumes "distinct (map fst (gt_uncoveredGoals st))"
  shows "generateTests_iteration E st
     = \<lparr> gt_this = (gt_this st)
           \<lparr> rtg_iterations := rtg_iterations (gt_this st) + 1,
             rtg_tests := rtg_tests (gt_this st)
                @ map (\<lambda>_. fst (chromosomeGenerator_get E (rtg_world (gt_this st))))
                    (filter (\<lambda>ff. isCovered (snd ff)
                               (fst (chromosomeGenerator_get E (rtg_world (gt_this st)))))
                       (gt_uncoveredGoals st)),
             rtg_world := snd (chromosomeGenerator_get E (rtg_world (gt_this st))) \<rparr>,
         gt_testSuite = gt_testSuite st
           @ map (\<lambda>_. WhiskerTest (fst (chromosomeGenerator_get E (rtg_world (gt_this st)))))
               (filter (\<lambda>ff. isCovered (snd ff)
                          (fst (chromosomeGenerator_get E (rtg_world (gt_this st)))))
                  (gt_uncoveredGoals st)),
         gt_uncoveredGoals =
           filter (\<lambda>ff. \<not> isCovered (snd ff)
                            (fst (chromosomeGenerator_get E (rtg_world (gt_this st)))))
             (gt_uncoveredGoals st) \<rparr>"
  by (simp add: generateTests_iteration_def Let_def fold_cover remove_covered [OF assms])

lemma generateTests_passes_closed:
  assumes "distinct (map fst (gt_uncoveredGoals st))"
  shows "(generateTests_iteration E ^^ k) st
     = \<lparr> gt_this = (gt_this st)
           \<lparr> rtg_iterations := rtg_iterations (gt_this st) + k,
             rtg_tests := rtg_tests (gt_this st)
                @ map chromosome
                    (expected_suite (gt_uncoveredGoals st)
                       (generated E k (rtg_world (gt_this st)))),
             rtg_world := world_after E k (rtg_world (gt_this st)) \<rparr>,
         gt_testSuite = gt_testSuite st
           @ expected_suite (gt_uncoveredGoals st) (generated E k (rtg_world (gt_this st))),
         gt_uncoveredGoals =
           filter (\<lambda>ff. \<forall>c \<in> set (generated E k (rtg_world (gt_this st))).
                            \<not> isCovered (snd ff) c)
             (gt_uncoveredGoals st) \<rparr>"
  using assms
proof (induction k arbitrary: st)
  case 0
  then show ?case by (simp add: expected_suite_def)
next
  case (Suc k)
  let ?st = "generateTests_iteration E st"
  note eq = generateTests_iteration_closed [OF Suc.prems, of E]
  have d: "distinct (map fst (gt_uncoveredGoals ?st))"
    unfolding eq using Suc.prems by (simp add: distinct_map_filter)
  have f: "(generateTests_iteration E ^^ Suc k) st = (generateTests_iteration E ^^ k) ?st"
    by (simp add: funpow_swap1)
  have fields: "gt_this ?st = (gt_this st)
           \<lparr> rtg_iterations := rtg_iterations (gt_this st) + 1,
             rtg_tests := rtg_tests (gt_this st)
                @ map (\<lambda>_. fst (chromosomeGenerator_get E (rtg_world (gt_this st))))
                    (filter (\<lambda>ff. isCovered (snd ff)
                               (fst (chromosomeGenerator_get E (rtg_world (gt_this st)))))
                       (gt_uncoveredGoals st)),
             rtg_world := snd (chromosomeGenerator_get E (rtg_world (gt_this st))) \<rparr>"
    "gt_testSuite ?st = gt_testSuite st
           @ map (\<lambda>_. WhiskerTest (fst (chromosomeGenerator_get E (rtg_world (gt_this st)))))
               (filter (\<lambda>ff. isCovered (snd ff)
                          (fst (chromosomeGenerator_get E (rtg_world (gt_this st)))))
                  (gt_uncoveredGoals st))"
    "gt_uncoveredGoals ?st =
           filter (\<lambda>ff. \<not> isCovered (snd ff)
                            (fst (chromosomeGenerator_get E (rtg_world (gt_this st)))))
             (gt_uncoveredGoals st)"
    by (simp_all add: eq)
  show ?case
    unfolding f Suc.IH [OF d] fields
    by (simp add: expected_suite_Cons comp_def)
qed

lemma generateTests_loop_least:
  "\<exists>k \<le> n. generateTests_loop E n st = (generateTests_iteration E ^^ k) st
      \<and> (\<forall>j < k. \<not> stoppingCondition_isFinished E
              (rtg_iterations (gt_this ((generateTests_iteration E ^^ j) st)))
              (rtg_tests (gt_this ((generateTests_iteration E ^^ j) st)))
              (rtg_world (gt_this ((generateTests_iteration E ^^ j) st))))
      \<and> (k < n \<longrightarrow> stoppingCondition_isFinished E
              (rtg_iterations (gt_this ((generateTests_iteration E ^^ k) st)))
              (rtg_tests (gt_this ((generateTests_iteration E ^^ k) st)))
              (rtg_world (gt_this ((generateTests_iteration E ^^ k) st))))"
proof (induction n arbitrary: st)
  case 0
  then show ?case by simp
next
  case (Suc n)
  let ?fin = "\<lambda>s. stoppingCondition_isFinished E (rtg_iterations (gt_this s))
      (rtg_tests (gt_this s)) (rtg_world (gt_this s))"
  show ?case
  proof (cases "?fin st")
    case True
    then show ?thesis by (intro exI [of _ 0]) simp
  next
    case False
    let ?st = "generateTests_iteration E st"
    from Suc.IH [of ?st] obtain k where k: "k \<le> n"
      "generateTests_loop E n ?st = (generateTests_iteration E ^^ k) ?st"
      "\<forall>j < k. \<not> ?fin ((generateTests_iteration E ^^ j) ?st)"
      "k < n \<longrightarrow> ?fin ((generateTests_iteration E ^^ k) ?st)" by blast
    have sw: "(generateTests_iteration E ^^ Suc j) st = (generateTests_iteration E ^^ j) ?st" for j
      by (simp add: funpow_swap1)
    have "\<not> ?fin ((generateTests_iteration E ^^ j) st)" if "j < Suc k" for j
    proof (cases j)
      case 0
      with False show ?thesis by simp
    next
      case (Suc i)
      with that k(3) have "\<not> ?fin ((generateTests_iteration E ^^ i) ?st)" by simp
      then show ?thesis unfolding Suc sw .
    qed
    moreover from False k(2) have "generateTests_loop E (Suc n) st
        = (generateTests_iteration E ^^ Suc k) st"
      unfolding sw by simp
    moreover from k(4) have "Suc k < Suc n \<longrightarrow> ?fin ((generateTests_iteration E ^^ Suc k) st)"
      unfolding sw by simp
    ultimately show ?thesis
      using k(1) by (intro exI [of _ "Suc k"]) (simp del: funpow.simps)
  qed
qed

lemma start_passes:
  assumes "distinct (keys (extractCoverageGoals E))"
  shows "(generateTests_iteration E ^^ k) (generateTests_start E this)
     = \<lparr> gt_this = after_passes E this k,
         gt_testSuite = expected_suite (extractCoverageGoals E) (generated E k (rtg_world this)),
         gt_uncoveredGoals =
           filter (\<lambda>ff. \<forall>c \<in> set (generated E k (rtg_world this)). \<not> isCovered (snd ff) c)
             (extractCoverageGoals E) \<rparr>"
proof -
  have d: "distinct (map fst (gt_uncoveredGoals (generateTests_start E this)))"
    using assms by (simp add: generateTests_start_def keys_def)
  show ?thesis
    unfolding generateTests_passes_closed [OF d]
    by (simp add: generateTests_start_def after_passes_def)
qed

lemma generateTests_characterised:
  assumes "distinct (keys (extractCoverageGoals E))"
  shows "\<exists>k \<le> n. (\<forall>j < k. \<not> finished_after E this j)
      \<and> (k < n \<longrightarrow> finished_after E this k)
      \<and> generateTests E n this
          = (if finished_after E this k
             then Some (after_passes E this k,
                        expected_suite (extractCoverageGoals E) (generated E k (rtg_world this)))
             else None)"
proof -
  from generateTests_loop_least [of n E "generateTests_start E this"]
  obtain k where k: "k \<le> n"
    "generateTests_loop E n (generateTests_start E this)
       = (generateTests_iteration E ^^ k) (generateTests_start E this)"
    "\<forall>j < k. \<not> finished_after E this j"
    "k < n \<longrightarrow> finished_after E this k"
    unfolding start_passes [OF assms] finished_after_def by auto
  have "generateTests E n this
          = (if finished_after E this k
             then Some (after_passes E this k,
                        expected_suite (extractCoverageGoals E) (generated E k (rtg_world this)))
             else None)"
    unfolding generateTests_def k(2) start_passes [OF assms] finished_after_def
    by (simp add: Let_def)
  with k(1,3,4) show ?thesis by blast
qed

lemma newly_covered_snoc:
  "t < length cs \<Longrightarrow> newly_covered goals (cs @ [c]) t = newly_covered goals cs t"
  "newly_covered goals (cs @ [c]) (length cs)
     = filter (\<lambda>ff. isCovered (snd ff) c \<and> (\<forall>c' \<in> set cs. \<not> isCovered (snd ff) c')) goals"
  by (simp_all add: newly_covered_def nth_append)

lemma expected_snoc:
  "expected_suite goals (cs @ [c])
     = expected_suite goals cs
       @ map (\<lambda>_. WhiskerTest c) (newly_covered goals (cs @ [c]) (length cs))"
  "expected_goals goals (cs @ [c])
     = expected_goals goals cs @ newly_covered goals (cs @ [c]) (length cs)"
proof -
  have 1: "map (\<lambda>t. replicate (length (newly_covered goals (cs @ [c]) t))
                   (WhiskerTest ((cs @ [c]) ! t))) [0..<length cs]
      = map (\<lambda>t. replicate (length (newly_covered goals cs t)) (WhiskerTest (cs ! t)))
          [0..<length cs]"
    by (rule map_cong) (simp_all add: newly_covered_snoc(1) nth_append)
  have 2: "map (newly_covered goals (cs @ [c])) [0..<length cs]
      = map (newly_covered goals cs) [0..<length cs]"
    by (rule map_cong) (simp_all add: newly_covered_snoc(1))
  show "expected_suite goals (cs @ [c])
     = expected_suite goals cs
       @ map (\<lambda>_. WhiskerTest c) (newly_covered goals (cs @ [c]) (length cs))"
    unfolding expected_suite_def by (simp add: 1 map_replicate_const)
  show "expected_goals goals (cs @ [c])
     = expected_goals goals cs @ newly_covered goals (cs @ [c]) (length cs)"
    unfolding expected_goals_def by (simp add: 2)
qed

lemma set_expected_goals:
  "set (expected_goals goals cs)
     = {ff \<in> set goals. \<exists>c \<in> set cs. isCovered (snd ff) c}"
proof (induction cs rule: rev_induct)
  case Nil
  then show ?case by (simp add: expected_goals_def)
next
  case (snoc c cs)
  then show ?case
    unfolding expected_snoc newly_covered_snoc by auto
qed

lemma set_expected_suite:
  "chromosome ` set (expected_suite goals cs) \<subseteq> set cs"
proof (induction cs rule: rev_induct)
  case Nil
  then show ?case by (simp add: expected_suite_def)
next
  case (snoc c cs)
  then show ?case
    unfolding expected_snoc by auto
qed

lemma one_per_goal_expected:
  assumes "distinct (map fst goals)"
  shows "one_per_goal goals (expected_goals goals cs) (expected_suite goals cs)"
proof (induction cs rule: rev_induct)
  case Nil
  then show ?case by (simp add: expected_goals_def expected_suite_def one_per_goal_def)
next
  case (snoc c cs)
  let ?K = "newly_covered goals (cs @ [c]) (length cs)"
  have K: "?K = filter (\<lambda>ff. isCovered (snd ff) c
      \<and> (\<forall>c' \<in> set cs. \<not> isCovered (snd ff) c')) goals"
    by (rule newly_covered_snoc(2))
  have same: "a = b" if "a \<in> set goals" "b \<in> set goals" "fst a = fst b" for a b
  proof -
    from eq_key_imp_eq_value [OF assms, of "fst a" "snd a" "snd b"] that
    have "snd a = snd b" by (metis prod.collapse)
    with that(3) show ?thesis by (simp add: prod_eq_iff)
  qed
  show ?case
    unfolding expected_snoc
  proof (rule one_per_goal_extend [OF snoc.IH])
    show "set ?K \<subseteq> set goals" by (auto simp: K)
    show "distinct (map fst ?K)" using assms by (simp add: K distinct_map_filter)
    show "fst ` set (expected_goals goals cs) \<inter> fst ` set ?K = {}"
    proof (rule ccontr)
      assume "fst ` set (expected_goals goals cs) \<inter> fst ` set ?K \<noteq> {}"
      then obtain a b where a: "a \<in> set (expected_goals goals cs)" and b: "b \<in> set ?K"
        and ab: "fst a = fst b" by auto
      from a have ag: "a \<in> set goals" and "\<exists>c \<in> set cs. isCovered (snd a) c"
        by (simp_all add: set_expected_goals)
      moreover from b have bg: "b \<in> set goals" and "\<forall>c' \<in> set cs. \<not> isCovered (snd b) c'"
        by (simp_all add: K)
      moreover from same [OF ag bg ab] have "a = b" .
      ultimately show False by blast
    qed
    show "\<forall>ff \<in> set ?K. isCovered (snd ff) c" by (simp add: K)
    show "\<forall>ff \<in> set ?K. \<forall>t \<in> set (expected_suite goals cs).
            \<not> isCovered (snd ff) (chromosome t)"
      using set_expected_suite [of goals cs] by (auto simp: K)
  qed
qed

subsection \<open>The configuration\<close>

lemma dict_get_update:
  "dict_get (AList.update k v dict) k' = (if k' = k then v else dict_get dict k')"
  by (simp add: dict_get_def update_conv')

lemma property_error: "property v key = Inl e \<Longrightarrow> e = TypeError"
  by (cases v) auto

lemma getMutationOperator_default:
  assumes "property (dict_get dict ''mutation'') ''operator'' = Inr v"
    and "v \<noteq> JStr ''bitflip''" and "v \<noteq> JStr ''variablelength''"
  shows "getMutationOperator dict
     = andThen (property (dict_get dict ''integerRange'') ''min'') (\<lambda>mn.
       andThen (property (dict_get dict ''integerRange'') ''max'') (\<lambda>mx.
       Inr (IntegerListMutation mn mx)))"
  using assms by (simp add: getMutationOperator_def andThen_def)

lemma getMutationOperator_named:
  assumes "property (dict_get dict ''mutation'') ''operator'' = Inr v"
    and "v \<noteq> JStr ''bitflip''" and "v \<noteq> JStr ''variablelength''"
  shows "getMutationOperator dict
     = getMutationOperator (with_property ''mutation'' ''operator'' (JStr ''integerlist'') dict)"
proof (cases "dict_get dict ''mutation''")
  case (JObj kvs)
  let ?d = "AList.update ''mutation'' (JObj (AList.update ''operator'' (JStr ''integerlist'') kvs)) dict"
  have w: "with_property ''mutation'' ''operator'' (JStr ''integerlist'') dict = ?d"
    by (simp add: with_property_def JObj)
  have "property (dict_get ?d ''mutation'') ''operator'' = Inr (JStr ''integerlist'')"
    by (simp add: dict_get_update update_conv')
  from getMutationOperator_default [OF this] getMutationOperator_default [OF assms]
  show ?thesis unfolding w by (simp add: dict_get_update)
qed (simp_all add: with_property_def)

lemma getCrossoverOperator_named:
  "getCrossoverOperator (with_property ''crossover'' ''operator'' (JStr ''singlepoint'') dict)
     = (case property (dict_get dict ''crossover'') ''operator'' of
          Inl e \<Rightarrow> Inl e | Inr v \<Rightarrow> Inr SinglePointCrossover)"
  by (cases "dict_get dict ''crossover''")
    (simp_all add: with_property_def getCrossoverOperator_def andThen_def dict_get_update
      update_conv')

lemma getSelectionOperator_named:
  "getSelectionOperator (with_property ''selection'' ''operator'' (JStr ''rank'') dict)
     = (case property (dict_get dict ''selection'') ''operator'' of
          Inl e \<Rightarrow> Inl e | Inr v \<Rightarrow> Inr RankSelection)"
  by (cases "dict_get dict ''selection''")
    (simp_all add: with_property_def getSelectionOperator_def andThen_def dict_get_update
      update_conv')

lemma getFitnessFunctionType_named:
  "getFitnessFunctionType (with_property ''fitness-function'' ''type'' (JStr ''single-bit'') dict)
     = (case property (dict_get dict ''fitness-function'') ''type'' of
          Inl e \<Rightarrow> Inl e | Inr v \<Rightarrow> Inr SINGLE_BIT)"
  by (cases "dict_get dict ''fitness-function''")
    (simp_all add: with_property_def getFitnessFunctionType_def andThen_def dict_get_update
      update_conv')

lemma chromosome_irrelevant:
  "getSearchAlgorithmProperties (AList.update ''chromosome'' v dict)
     = getSearchAlgorithmProperties dict"
  "getMutationOperator (AList.update ''chromosome'' v dict) = getMutationOperator dict"
  "getCrossoverOperator (AList.update ''chromosome'' v dict) = getCrossoverOperator dict"
  by (simp_all add: getSearchAlgorithmProperties_def getMutationOperator_def
      getCrossoverOperator_def dict_get_update update_conv' cong: if_cong)

lemma getChromosomeGenerator_default:
  assumes "dict_get dict ''chromosome'' \<noteq> JStr ''bitstring''"
    and "dict_get dict ''chromosome'' \<noteq> JStr ''integerlist''"
    and "dict_get dict ''chromosome'' \<noteq> JStr ''variablelengthtest''"
  shows "getChromosomeGenerator dict
     = andThen (getSearchAlgorithmProperties dict) (\<lambda>properties.
       andThen (getMutationOperator dict) (\<lambda>mutation.
       andThen (getCrossoverOperator dict) (\<lambda>crossover.
       Inr (TestChromosomeGenerator properties mutation crossover))))"
  using assms by (simp add: getChromosomeGenerator_def Let_def)

lemma getChromosomeGenerator_named:
  assumes "dict_get dict ''chromosome'' \<noteq> JStr ''bitstring''"
    and "dict_get dict ''chromosome'' \<noteq> JStr ''integerlist''"
    and "dict_get dict ''chromosome'' \<noteq> JStr ''variablelengthtest''"
  shows "getChromosomeGenerator dict
     = getChromosomeGenerator (AList.update ''chromosome'' (JStr ''test'') dict)"
proof -
  let ?d = "AList.update ''chromosome'' (JStr ''test'') dict"
  have "dict_get ?d ''chromosome'' = JStr ''test''" by (simp add: dict_get_update)
  then have "getChromosomeGenerator ?d
     = andThen (getSearchAlgorithmProperties ?d) (\<lambda>properties.
       andThen (getMutationOperator ?d) (\<lambda>mutation.
       andThen (getCrossoverOperator ?d) (\<lambda>crossover.
       Inr (TestChromosomeGenerator properties mutation crossover))))"
    by (intro getChromosomeGenerator_default) simp_all
  with getChromosomeGenerator_default [OF assms] show ?thesis
    by (simp add: chromosome_irrelevant)
qed

subsection \<open>The concrete run\<close>

lemma breed4:
  "breed collaborators4 population4 False w
     = ((bits 11 [True, False, False, False], bits 11 [True, False, False, False]), w)"
  by (simp add: breed_def selectChromosome_def nextInt_def collaborators4_def population4_def)

lemma offspring4:
  "generateOffspringPopulation collaborators4 population4 False w
     = ([bits 11 [True, False, False, False], bits 11 [True, False, False, False],
         bits 11 [True, False, False, False], bits 11 [True, False, False, False]], w)"
proof -
  have l: "length population4 = 4" by (simp add: population4_def)
  show ?thesis
    by (simp add: generateOffspringPopulation_def breed4 l numeral_eq_Suc)
qed

lemma dominates4:
  "dominates [(0, oneMax 4)] [] (bits a as) (bits b bs)
     = (length (filter id bs) < length (filter id as))"
  by (auto simp: dominates_def has_def oneMax_def bits_def)

lemma populationSize4: "getPopulationSize collaborators4 = 4"
  by (simp add: collaborators4_def)

lemma sort_single4:
  "subVectorDominanceSorting collaborators4 F [c] w = ([c], w)"
  by (simp add: subVectorDominanceSorting_def collaborators4_def)

lemma fill4:
  "fill_parentPopulation collaborators4 F [[a], [b], [c]] [] w = ([a, b, c], w)"
  by (simp add: sort_single4 populationSize4 Let_def)

lemma goals4:
  "preferenceSorting_goals [] combined4 [(0, oneMax 4)] ([], combined4)
      = Inr ([bits 10 [True, True, True, False]],
             [bits 11 [True, False, False, False], bits 12 [True, True, False, False],
              bits 13 [False, False, False, False], bits 11 [True, False, False, False],
              bits 11 [True, False, False, False], bits 11 [True, False, False, False],
              bits 11 [True, False, False, False]])"
  by (simp add: combined4_def population4_def has_def oneMax_def bits_def getLength_def
        numeral_eq_Suc)

lemma first4:
  "fold (fnds_first [(0, oneMax 4)] []
     [bits 11 [True, False, False, False], bits 12 [True, True, False, False],
      bits 13 [False, False, False, False], bits 11 [True, False, False, False],
      bits 11 [True, False, False, False], bits 11 [True, False, False, False],
      bits 11 [True, False, False, False]])
     [bits 11 [True, False, False, False], bits 12 [True, True, False, False],
      bits 13 [False, False, False, False], bits 11 [True, False, False, False],
      bits 11 [True, False, False, False], bits 11 [True, False, False, False],
      bits 11 [True, False, False, False]] ([], [], [])
   = ([bits 12 [True, True, False, False]],
      [(bits 11 [True, False, False, False], [bits 13 [False, False, False, False]]),
       (bits 12 [True, True, False, False],
          [bits 11 [True, False, False, False], bits 13 [False, False, False, False],
           bits 11 [True, False, False, False], bits 11 [True, False, False, False],
           bits 11 [True, False, False, False], bits 11 [True, False, False, False]]),
       (bits 13 [False, False, False, False], [])],
      [(bits 11 [True, False, False, False], 1), (bits 12 [True, True, False, False], 0),
       (bits 13 [False, False, False, False], 6)])"
  by (simp add: fnds_first_def fnds_compare_def dominates4) (simp add: bits_def)

lemma fnds4:
  "fastNonDominatedSorting [(0, oneMax 4)] []
     [bits 11 [True, False, False, False], bits 12 [True, True, False, False],
      bits 13 [False, False, False, False], bits 11 [True, False, False, False],
      bits 11 [True, False, False, False], bits 11 [True, False, False, False],
      bits 11 [True, False, False, False]]
   = [[bits 12 [True, True, False, False]], [bits 11 [True, False, False, False]]]"
  unfolding fastNonDominatedSorting_def first4
  by (simp add: fnds_nextFront_def fnds_release_def bits_def)

lemma preferenceSorting4:
  "preferenceSorting collaborators4 [(0, oneMax 4)] [] combined4
     = Inr [[bits 10 [True, True, True, False]], [bits 12 [True, True, False, False]],
            [bits 11 [True, False, False, False]]]"
  unfolding preferenceSorting_def goals4 by (simp add: fnds4 populationSize4)

lemma archive4: "updateArchive [(0, oneMax 4)] [] population4 = []"
  "updateArchive [(0, oneMax 4)] [] [bits 11 [True, False, False, False], bits 11 [True, False, False, False],
       bits 11 [True, False, False, False], bits 11 [True, False, False, False]] = []"
  "updateArchive [(0, oneMax 4)] []
     [bits 10 [True, True, True, False], bits 12 [True, True, False, False],
      bits 11 [True, False, False, False]] = []"
  by (simp_all add: updateArchive_def updateArchive_goal_def population4_def oneMax_def
      bits_def numeral_eq_Suc)

lemma init4:
  "MOSA_init collaborators4 [(0, oneMax 4)] 0 0
     = \<lparr> mosa_iterations = 0, mosa_bestIndividuals = [], mosa_archive = [],
         mosa_parentPopulation = population4, mosa_world = 0 \<rparr>"
  unfolding MOSA_init_def Let_def by (simp add: collaborators4_def archive4)

lemma iteration4:
  "MOSA_iteration collaborators4 [(0, oneMax 4)]
     \<lparr> mosa_iterations = 0, mosa_bestIndividuals = [], mosa_archive = [],
       mosa_parentPopulation = population4, mosa_world = 0 \<rparr>
   = Inr \<lparr> mosa_iterations = 1, mosa_bestIndividuals = [], mosa_archive = [],
           mosa_parentPopulation =
             [bits 11 [True, False, False, False], bits 12 [True, True, False, False],
              bits 10 [True, True, True, False]],
           mosa_world = 0 \<rparr>"
  unfolding MOSA_iteration_def Let_def
  by (simp add: offspring4 archive4 preferenceSorting4 [unfolded combined4_def] fill4
      distinct_list_def values_of_def del: fill_parentPopulation.simps)

lemma finished4: "isFinished collaborators4 its best w = (1 \<le> its)"
  by (simp add: collaborators4_def)

lemma randomSearch_run:
  "generateTests randomCollaborators 1 randomTestGenerator0
     = Some (\<lparr> rtg_startTime = 0, rtg_iterations = 1,
               rtg_tests = [bits 0 [True, True], bits 0 [True, True]],
               rtg_fitnessFunctions = [(0, singleBit 0), (1, singleBit 1)],
               rtg_world = 1 \<rparr>,
             [WhiskerTest (bits 0 [True, True]), WhiskerTest (bits 0 [True, True])])"
  by (simp add: generateTests_def generateTests_start_def generateTests_iteration_def
      generateTests_cover_def randomCollaborators_def randomTestGenerator0_def
      singleBit_def bits_def Let_def)

lemma covers_new_twice: "\<not> covers_new goals [t, t]"
proof
  assume "covers_new goals [t, t]"
  then have "\<exists>ff \<in> set goals. isCovered (snd ff) (chromosome ([t, t] ! 1))
         \<and> (\<forall>j < 1. \<not> isCovered (snd ff) (chromosome ([t, t] ! j)))"
    unfolding covers_new_def by (metis length_Cons less_Suc_eq list.size(3) One_nat_def)
  then show False by auto
qed

lemma exampleConfiguration_properties:
  "getSearchAlgorithmProperties exampleConfiguration = Inr exampleProperties"
  by (simp add: getSearchAlgorithmProperties_def exampleConfiguration_def exampleProperties_def
      dict_get_def andThen_def loose_equals_def)

text \<open>
  The same run with two goals, of which the initial population covers the first: the
  archive then holds an entry from the start.
\<close>

lemma dominates4b:
  "dominates [(0, oneMax 3), (2, oneMax 4)] [(0, c)] (bits a as) (bits b bs)
     = (length (filter id bs) < length (filter id as))"
  by (auto simp: dominates_def has_def oneMax_def bits_def)

lemma goals4b:
  "preferenceSorting_goals [(0, bits 10 [True, True, True, False])] combined4
      [(0, oneMax 3), (2, oneMax 4)] ([], combined4)
      = Inr ([bits 10 [True, True, True, False]],
             [bits 11 [True, False, False, False], bits 12 [True, True, False, False],
              bits 13 [False, False, False, False], bits 11 [True, False, False, False],
              bits 11 [True, False, False, False], bits 11 [True, False, False, False],
              bits 11 [True, False, False, False]])"
  by (simp add: combined4_def population4_def has_def oneMax_def bits_def getLength_def
        numeral_eq_Suc)

lemma first4b:
  "fold (fnds_first [(0, oneMax 3), (2, oneMax 4)] [(0, bits 10 [True, True, True, False])]
     [bits 11 [True, False, False, False], bits 12 [True, True, False, False],
      bits 13 [False, False, False, False], bits 11 [True, False, False, False],
      bits 11 [True, False, False, False], bits 11 [True, False, False, False],
      bits 11 [True, False, False, False]])
     [bits 11 [True, False, False, False], bits 12 [True, True, False, False],
      bits 13 [False, False, False, False], bits 11 [True, False, False, False],
      bits 11 [True, False, False, False], bits 11 [True, False, False, False],
      bits 11 [True, False, False, False]] ([], [], [])
   = ([bits 12 [True, True, False, False]],
      [(bits 11 [True, False, False, False], [bits 13 [False, False, False, False]]),
       (bits 12 [True, True, False, False],
          [bits 11 [True, False, False, False], bits 13 [False, False, False, False],
           bits 11 [True, False, False, False], bits 11 [True, False, False, False],
           bits 11 [True, False, False, False], bits 11 [True, False, False, False]]),
       (bits 13 [False, False, False, False], [])],
      [(bits 11 [True, False, False, False], 1), (bits 12 [True, True, False, False], 0),
       (bits 13 [False, False, False, False], 6)])"
  by (simp add: fnds_first_def fnds_compare_def dominates4b) (simp add: bits_def)

lemma fnds4b:
  "fastNonDominatedSorting [(0, oneMax 3), (2, oneMax 4)]
     [(0, bits 10 [True, True, True, False])]
     [bits 11 [True, False, False, False], bits 12 [True, True, False, False],
      bits 13 [False, False, False, False], bits 11 [True, False, False, False],
      bits 11 [True, False, False, False], bits 11 [True, False, False, False],
      bits 11 [True, False, False, False]]
   = [[bits 12 [True, True, False, False]], [bits 11 [True, False, False, False]]]"
  unfolding fastNonDominatedSorting_def first4b
  by (simp add: fnds_nextFront_def fnds_release_def bits_def)

lemma preferenceSorting4b:
  "preferenceSorting collaborators4 [(0, oneMax 3), (2, oneMax 4)]
     [(0, bits 10 [True, True, True, False])] combined4
     = Inr [[bits 10 [True, True, True, False]], [bits 12 [True, True, False, False]],
            [bits 11 [True, False, False, False]]]"
  unfolding preferenceSorting_def goals4b by (simp add: fnds4b populationSize4)

lemma archive4b:
  "updateArchive [(0, oneMax 3), (2, oneMax 4)] [] population4
     = [(0, bits 10 [True, True, True, False])]"
  "updateArchive [(0, oneMax 3), (2, oneMax 4)] [(0, bits 10 [True, True, True, False])]
     [bits 11 [True, False, False, False], bits 11 [True, False, False, False],
      bits 11 [True, False, False, False], bits 11 [True, False, False, False]]
     = [(0, bits 10 [True, True, True, False])]"
  "updateArchive [(0, oneMax 3), (2, oneMax 4)] [(0, bits 10 [True, True, True, False])]
     [bits 10 [True, True, True, False], bits 12 [True, True, False, False],
      bits 11 [True, False, False, False]]
     = [(0, bits 10 [True, True, True, False])]"
  by (simp_all add: updateArchive_def updateArchive_goal_def population4_def oneMax_def
      bits_def getLength_def MAX_SAFE_INTEGER_def)

lemma init4b:
  "MOSA_init collaborators4 [(0, oneMax 3), (2, oneMax 4)] 0 0
     = \<lparr> mosa_iterations = 0, mosa_bestIndividuals = [],
         mosa_archive = [(0, bits 10 [True, True, True, False])],
         mosa_parentPopulation = population4, mosa_world = 0 \<rparr>"
  unfolding MOSA_init_def Let_def by (simp add: collaborators4_def archive4b)

lemma iteration4b:
  "MOSA_iteration collaborators4 [(0, oneMax 3), (2, oneMax 4)]
     \<lparr> mosa_iterations = 0, mosa_bestIndividuals = [],
       mosa_archive = [(0, bits 10 [True, True, True, False])],
       mosa_parentPopulation = population4, mosa_world = 0 \<rparr>
   = Inr \<lparr> mosa_iterations = 1,
           mosa_bestIndividuals = [bits 10 [True, True, True, False]],
           mosa_archive = [(0, bits 10 [True, True, True, False])],
           mosa_parentPopulation =
             [bits 11 [True, False, False, False], bits 12 [True, True, False, False],
              bits 10 [True, True, True, False]],
           mosa_world = 0 \<rparr>"
  unfolding MOSA_iteration_def Let_def
  by (simp add: offspring4 archive4b preferenceSorting4b [unfolded combined4_def] fill4
      distinct_list_def values_of_def del: fill_parentPopulation.simps)

lemma loop4b:
  "MOSA_loop collaborators4 [(0, oneMax 3), (2, oneMax 4)] (Suc (Suc 0))
     (MOSA_init collaborators4 [(0, oneMax 3), (2, oneMax 4)] 0 0)
   = Inr \<lparr> mosa_iterations = 1,
           mosa_bestIndividuals = [bits 10 [True, True, True, False]],
           mosa_archive = [(0, bits 10 [True, True, True, False])],
           mosa_parentPopulation =
             [bits 11 [True, False, False, False], bits 12 [True, True, False, False],
              bits 10 [True, True, True, False]],
           mosa_world = 0 \<rparr>"
  by (simp add: init4b iteration4b finished4)

text \<open>The run of \<open>collaborators2\<close>, in which every child is a new object.\<close>

lemma breed2:
  "breed collaborators2 population2 False 30
     = ((bits 30 [True, False, False], bits 31 [True, False, False]), 32)"
  by (simp add: breed_def selectChromosome_def nextInt_def collaborators2_def population2_def
      bits_def)

lemma offspring2:
  "generateOffspringPopulation collaborators2 population2 False 30
     = ([bits 30 [True, False, False], bits 31 [True, False, False]], 32)"
proof -
  have l: "length population2 = 2" by (simp add: population2_def)
  show ?thesis
    by (simp add: generateOffspringPopulation_def breed2 l)
qed

lemma dominates2:
  "dominates [(0, oneMax 3)] [] (bits a as) (bits b bs)
     = (length (filter id bs) < length (filter id as))"
  by (auto simp: dominates_def has_def oneMax_def bits_def)

lemma populationSize2: "getPopulationSize collaborators2 = 2"
  by (simp add: collaborators2_def)

lemma archive2:
  "updateArchive [(0, oneMax 3)] [] [bits a [True, False, False], bits b [True, False, False]] = []"
  "updateArchive [(0, oneMax 3)] [] [bits a [True, True, False], bits b [True, False, False]] = []"
  by (simp_all add: updateArchive_def updateArchive_goal_def oneMax_def bits_def numeral_eq_Suc)

lemma goals2:
  "preferenceSorting_goals []
     [bits 20 [True, True, False], bits 21 [True, False, False],
      bits 30 [True, False, False], bits 31 [True, False, False]]
     [(0, oneMax 3)]
     ([], [bits 20 [True, True, False], bits 21 [True, False, False],
           bits 30 [True, False, False], bits 31 [True, False, False]])
   = Inr ([bits 20 [True, True, False]],
          [bits 21 [True, False, False], bits 30 [True, False, False],
           bits 31 [True, False, False]])"
  by (simp add: has_def oneMax_def bits_def getLength_def numeral_eq_Suc)

lemma first2:
  "fold (fnds_first [(0, oneMax 3)] []
     [bits 21 [True, False, False], bits 30 [True, False, False], bits 31 [True, False, False]])
     [bits 21 [True, False, False], bits 30 [True, False, False], bits 31 [True, False, False]]
     ([], [], [])
   = ([bits 21 [True, False, False], bits 30 [True, False, False],
       bits 31 [True, False, False]],
      [(bits 21 [True, False, False], []), (bits 30 [True, False, False], []),
       (bits 31 [True, False, False], [])],
      [(bits 21 [True, False, False], 0), (bits 30 [True, False, False], 0),
       (bits 31 [True, False, False], 0)])"
  by (simp add: fnds_first_def fnds_compare_def dominates2) (simp add: bits_def)

lemma fnds2:
  "fastNonDominatedSorting [(0, oneMax 3)] []
     [bits 21 [True, False, False], bits 30 [True, False, False], bits 31 [True, False, False]]
   = [[bits 21 [True, False, False], bits 30 [True, False, False],
       bits 31 [True, False, False]]]"
  unfolding fastNonDominatedSorting_def first2
  by (simp add: fnds_nextFront_def fnds_release_def bits_def)

lemma preferenceSorting2:
  "preferenceSorting collaborators2 [(0, oneMax 3)] []
     (population2 @ [bits 30 [True, False, False], bits 31 [True, False, False]])
     = Inr [[bits 20 [True, True, False]],
            [bits 21 [True, False, False], bits 30 [True, False, False],
             bits 31 [True, False, False]]]"
  unfolding preferenceSorting_def population2_def append.simps goals2
  by (simp add: fnds2 populationSize2)

lemma sort2:
  "subVectorDominanceSorting collaborators2 [(0, oneMax 3)] [bits 20 [True, True, False]] w
     = ([bits 20 [True, True, False]], w)"
  "subVectorDominanceSorting collaborators2 [(0, oneMax 3)]
     [bits 21 [True, False, False], bits 30 [True, False, False], bits 31 [True, False, False]] w
     = ([bits 21 [True, False, False], bits 30 [True, False, False],
         bits 31 [True, False, False]], w)"
  by (simp_all add: subVectorDominanceSorting_def svd_distance_def calculateSVD_def
      values_of_def oneMax_def collaborators2_def bits_def)

lemma fill2:
  "fill_parentPopulation collaborators2 [(0, oneMax 3)]
     [[bits 20 [True, True, False]],
      [bits 21 [True, False, False], bits 30 [True, False, False],
       bits 31 [True, False, False]]] [] w
   = ([bits 20 [True, True, False], bits 21 [True, False, False]], w)"
  by (simp add: sort2 populationSize2 Let_def)

lemma iteration2:
  "MOSA_iteration collaborators2 [(0, oneMax 3)]
     \<lparr> mosa_iterations = 0, mosa_bestIndividuals = [], mosa_archive = [],
       mosa_parentPopulation = population2, mosa_world = 30 \<rparr>
   = Inr \<lparr> mosa_iterations = 1, mosa_bestIndividuals = [], mosa_archive = [],
           mosa_parentPopulation =
             [bits 21 [True, False, False], bits 20 [True, True, False]],
           mosa_world = 32 \<rparr>"
  unfolding MOSA_iteration_def Let_def
  by (simp add: offspring2 archive2 preferenceSorting2 fill2
      distinct_list_def values_of_def del: fill_parentPopulation.simps)

lemma oneMax_total_order: "total_order_compare (compare (oneMax n))"
  by (auto simp: total_order_compare_def oneMax_def)

text \<open>The run of \<open>randomCollaborators3\<close>.\<close>

lemma covered3:
  "isCovered (singleBit 0) (bits r [a, b, c, d]) = a"
  "isCovered (singleBit 2) (bits r [a, b, c, d]) = c"
  "isCovered (singleBit 3) (bits r [a, b, c, d]) = d"
  by (simp_all add: singleBit_def bits_def numeral_eq_Suc)

lemma get3:
  "chromosomeGenerator_get randomCollaborators3 0 = (bits 0 [True, False, True, False], 10)"
  "chromosomeGenerator_get randomCollaborators3 10 = (bits 10 [True, False, False, False], 20)"
  "chromosomeGenerator_get randomCollaborators3 20 = (bits 20 [False, False, False, True], 30)"
  by (simp_all add: randomCollaborators3_def)

lemma finished3:
  "stoppingCondition_isFinished randomCollaborators3 its tests w = (3 \<le> its)"
  by (simp add: randomCollaborators3_def)

lemma start3:
  "generateTests_start randomCollaborators3 randomTestGenerator0
     = \<lparr> gt_this = \<lparr> rtg_startTime = 0, rtg_iterations = 0, rtg_tests = [],
                      rtg_fitnessFunctions = [(0, singleBit 0), (2, singleBit 2), (3, singleBit 3)],
                      rtg_world = 0 \<rparr>,
         gt_testSuite = [],
         gt_uncoveredGoals = [(0, singleBit 0), (2, singleBit 2), (3, singleBit 3)] \<rparr>"
  by (simp add: generateTests_start_def randomCollaborators3_def randomTestGenerator0_def)

lemma pass3:
  "generateTests_iteration randomCollaborators3
     \<lparr> gt_this = \<lparr> rtg_startTime = 0, rtg_iterations = i, rtg_tests = ts,
                    rtg_fitnessFunctions = F, rtg_world = 0 \<rparr>,
       gt_testSuite = S,
       gt_uncoveredGoals = [(0, singleBit 0), (2, singleBit 2), (3, singleBit 3)] \<rparr>
   = \<lparr> gt_this = \<lparr> rtg_startTime = 0, rtg_iterations = i + 1,
                    rtg_tests = ts @ [bits 0 [True, False, True, False],
                                      bits 0 [True, False, True, False]],
                    rtg_fitnessFunctions = F, rtg_world = 10 \<rparr>,
       gt_testSuite = S @ [WhiskerTest (bits 0 [True, False, True, False]),
                           WhiskerTest (bits 0 [True, False, True, False])],
       gt_uncoveredGoals = [(3, singleBit 3)] \<rparr>"
  "generateTests_iteration randomCollaborators3
     \<lparr> gt_this = \<lparr> rtg_startTime = 0, rtg_iterations = i, rtg_tests = ts,
                    rtg_fitnessFunctions = F, rtg_world = 10 \<rparr>,
       gt_testSuite = S,
       gt_uncoveredGoals = [(3, singleBit 3)] \<rparr>
   = \<lparr> gt_this = \<lparr> rtg_startTime = 0, rtg_iterations = i + 1, rtg_tests = ts,
                    rtg_fitnessFunctions = F, rtg_world = 20 \<rparr>,
       gt_testSuite = S,
       gt_uncoveredGoals = [(3, singleBit 3)] \<rparr>"
  "generateTests_iteration randomCollaborators3
     \<lparr> gt_this = \<lparr> rtg_startTime = 0, rtg_iterations = i, rtg_tests = ts,
                    rtg_fitnessFunctions = F, rtg_world = 20 \<rparr>,
       gt_testSuite = S,
       gt_uncoveredGoals = [(3, singleBit 3)] \<rparr>
   = \<lparr> gt_this = \<lparr> rtg_startTime = 0, rtg_iterations = i + 1,
                    rtg_tests = ts @ [bits 20 [False, False, False, True]],
                    rtg_fitnessFunctions = F, rtg_world = 30 \<rparr>,
       gt_testSuite = S @ [WhiskerTest (bits 20 [False, False, False, True])],
       gt_uncoveredGoals = [] \<rparr>"
  by (simp_all add: generateTests_iteration_def generateTests_cover_def get3 covered3 Let_def)

lemma generateTests_loop_numeral:
  "generateTests_loop E (numeral k) st =
     (if stoppingCondition_isFinished E (rtg_iterations (gt_this st)) (rtg_tests (gt_this st))
           (rtg_world (gt_this st))
      then st
      else generateTests_loop E (pred_numeral k) (generateTests_iteration E st))"
  by (simp add: numeral_eq_Suc)

lemma randomSearch_run3:
  "generateTests randomCollaborators3 3 randomTestGenerator0
     = Some (\<lparr> rtg_startTime = 0, rtg_iterations = 3,
               rtg_tests = [bits 0 [True, False, True, False], bits 0 [True, False, True, False],
                            bits 20 [False, False, False, True]],
               rtg_fitnessFunctions = [(0, singleBit 0), (2, singleBit 2), (3, singleBit 3)],
               rtg_world = 30 \<rparr>,
             [WhiskerTest (bits 0 [True, False, True, False]),
              WhiskerTest (bits 0 [True, False, True, False]),
              WhiskerTest (bits 20 [False, False, False, True])])"
  unfolding generateTests_def start3
  by (simp add: generateTests_loop_numeral finished3 pass3)

lemma generated3:
  "generated randomCollaborators3 3 0
     = [bits 0 [True, False, True, False], bits 10 [True, False, False, False],
        bits 20 [False, False, False, True]]"
  by (simp add: numeral_3_eq_3 get3)

lemma newly3:
  "newly_covered [(0, singleBit 0), (2, singleBit 2), (3, singleBit 3)]
     [bits 0 [True, False, True, False], bits 10 [True, False, False, False],
      bits 20 [False, False, False, True]] 0
   = [(0, singleBit 0), (2, singleBit 2)]"
  "newly_covered [(0, singleBit 0), (2, singleBit 2), (3, singleBit 3)]
     [bits 0 [True, False, True, False], bits 10 [True, False, False, False],
      bits 20 [False, False, False, True]] (Suc 0)
   = []"
  "newly_covered [(0, singleBit 0), (2, singleBit 2), (3, singleBit 3)]
     [bits 0 [True, False, True, False], bits 10 [True, False, False, False],
      bits 20 [False, False, False, True]] 2
   = [(3, singleBit 3)]"
  by (simp_all add: newly_covered_def covered3)

section \<open>Theorems\<close>

text \<open>
  C1: with the goals keyed distinctly (a \<open>Map\<close>), the archive satisfies the invariant
  after the initial population has been archived, \<open>updateArchive\<close> preserves the
  invariant for any candidates, and the archive of every state the loop of
  \<open>findSolution\<close> reaches satisfies it.
\<close>

theorem MOSA_archive_invariant:
  assumes "distinct (keys F)"
  shows "archive_optimal F (mosa_archive (MOSA_init E F i0 w))
    \<and> (archive_optimal F a \<longrightarrow> archive_optimal F (updateArchive F a cs))
    \<and> (MOSA_loop E F n (MOSA_init E F i0 w) = Inr st \<longrightarrow> archive_optimal F (mosa_archive st))"
proof -
  have e: "archive_optimal F []"
    by (simp add: archive_optimal_def)
  have i: "archive_optimal F (mosa_archive (MOSA_init E F i0 w))"
    by (simp add: MOSA_init_def Let_def archive_optimal_updateArchive [OF assms e])
  from i archive_optimal_updateArchive [OF assms] archive_optimal_loop [OF assms i]
  show ?thesis by blast
qed

theorem MOSA_archive_invariant_witness:
  "mosa_archive (MOSA_init collaborators4 [(0, oneMax 3), (2, oneMax 4)] 0 0)
      = [(0, bits 10 [True, True, True, False])]
   \<and> MOSA_loop collaborators4 [(0, oneMax 3), (2, oneMax 4)] (Suc (Suc 0))
       (MOSA_init collaborators4 [(0, oneMax 3), (2, oneMax 4)] 0 0)
      = Inr \<lparr> mosa_iterations = 1,
           mosa_bestIndividuals = [bits 10 [True, True, True, False]],
           mosa_archive = [(0, bits 10 [True, True, True, False])],
           mosa_parentPopulation =
             [bits 11 [True, False, False, False], bits 12 [True, True, False, False],
              bits 10 [True, True, True, False]],
           mosa_world = 0 \<rparr>
   \<and> archive_optimal [(0, oneMax 3), (2, oneMax 4)] [(0, bits 10 [True, True, True, False])]
   \<and> archive_optimal [(0, oneMax 3), (2, oneMax 4)]
        (updateArchive [(0, oneMax 3), (2, oneMax 4)] [(0, bits 10 [True, True, True, False])]
           [bits 10 [True, True, True, False], bits 12 [True, True, False, False],
            bits 11 [True, False, False, False]])"
proof -
  let ?F = "[(0::nat, oneMax 3), (2, oneMax 4)]"
  let ?st = "\<lparr> mosa_iterations = 1,
           mosa_bestIndividuals = [bits 10 [True, True, True, False]],
           mosa_archive = [(0, bits 10 [True, True, True, False])],
           mosa_parentPopulation =
             [bits 11 [True, False, False, False], bits 12 [True, True, False, False],
              bits 10 [True, True, True, False]],
           mosa_world = (0::nat) \<rparr>"
  have d: "distinct (keys ?F)" by (simp add: keys_def)
  from MOSA_archive_invariant [OF d, of collaborators4 0 0
      "[(0, bits 10 [True, True, True, False])]"
      "[bits 10 [True, True, True, False], bits 12 [True, True, False, False],
        bits 11 [True, False, False, False]]" "Suc (Suc 0)" ?st] loop4b init4b
  show ?thesis by simp
qed

text \<open>
  C2: for a goal \<open>k\<close> of the map and candidates shorter than \<open>MAX_SAFE_INTEGER\<close> (a
  JavaScript array holds fewer than \<open>2^32\<close> elements), considering one candidate
  replaces the entry of \<open>k\<close> exactly when the candidate is optimal and the goal has no
  entry or a strictly longer one; and after a list of candidates the entry is the
  first shortest chromosome among the previous entry followed by the optimal
  candidates in the order considered (none when there is neither), so of several
  shortest optimal chromosomes the earliest one is kept.
\<close>

theorem updateArchive_replacement_policy:
  assumes "distinct (keys F)" and "(k, ff) \<in> set F"
    and "\<forall>c \<in> set (c # cs). getLength c < MAX_SAFE_INTEGER"
  shows "map_of (updateArchive F a [c]) k =
           (if isOptimal ff (getFitness ff c)
               \<and> (case map_of a k of None \<Rightarrow> True | Some d \<Rightarrow> getLength c < getLength d)
            then Some c else map_of a k)
    \<and> (let pool = current_entry a k @ optimal_candidates ff cs
       in if pool = [] then map_of (updateArchive F a cs) k = None
          else \<exists>i. first_shortest pool i \<and> map_of (updateArchive F a cs) k = Some (pool ! i))"
proof -
  from assms(3) have c: "\<forall>c \<in> set [c]. getLength c < MAX_SAFE_INTEGER"
    and cs: "\<forall>c \<in> set cs. getLength c < MAX_SAFE_INTEGER" by simp_all
  have one: "map_of (updateArchive F a [c]) k =
           (if isOptimal ff (getFitness ff c)
               \<and> (case map_of a k of None \<Rightarrow> True | Some d \<Rightarrow> getLength c < getLength d)
            then Some c else map_of a k)"
    unfolding updateArchive_entry [OF assms(1,2) c]
    by (auto simp: current_entry_def optimal_candidates_def Let_def split: option.splits)
  have none: "map_of (updateArchive F a cs) k = None"
    if "current_entry a k @ optimal_candidates ff cs = []"
    unfolding updateArchive_entry [OF assms(1,2) cs] using that by (simp add: Let_def)
  have some: "\<exists>i. first_shortest (current_entry a k @ optimal_candidates ff cs) i
            \<and> map_of (updateArchive F a cs) k
                = Some ((current_entry a k @ optimal_candidates ff cs) ! i)"
    if ne: "current_entry a k @ optimal_candidates ff cs \<noteq> []"
    unfolding updateArchive_entry [OF assms(1,2) cs] first_shortest_def
    using arg_min_list_first [OF ne, of getLength] ne by (auto simp: Let_def)
  from one none some show ?thesis by (simp add: Let_def)
qed

theorem updateArchive_replacement_policy_witness:
  "map_of (updateArchive [(0, oneMax 2)] [(0, bits 0 [True, True, False])]
             [bits 1 [True, False, True]]) 0
     = Some (bits 0 [True, True, False])
   \<and> first_shortest [bits 0 [True, True, False], bits 1 [True, False, True],
                      bits 2 [True, True], bits 3 [True, True]] 2
   \<and> map_of (updateArchive [(0, oneMax 2)] [(0, bits 0 [True, True, False])]
               [bits 1 [True, False, True], bits 2 [True, True], bits 3 [True, True],
                bits 4 [True]]) 0
     = Some (bits 2 [True, True])"
proof -
  let ?F = "[(0::nat, oneMax 2)]" and ?a = "[(0, bits 0 [True, True, False])]"
  let ?c = "bits 1 [True, False, True]"
  let ?cs = "[bits 1 [True, False, True], bits 2 [True, True], bits 3 [True, True], bits 4 [True]]"
  have 1: "distinct (keys ?F)" by (simp add: keys_def)
  have 2: "(0, oneMax 2) \<in> set ?F" by simp
  have 3: "\<forall>c \<in> set (?c # ?cs). getLength c < MAX_SAFE_INTEGER"
    by (simp add: getLength_def bits_def MAX_SAFE_INTEGER_def)
  have pool: "current_entry ?a 0 @ optimal_candidates (oneMax 2) ?cs
      = [bits 0 [True, True, False], bits 1 [True, False, True], bits 2 [True, True], bits 3 [True, True]]"
    by (simp add: current_entry_def optimal_candidates_def oneMax_def bits_def)
  have fs: "first_shortest [bits 0 [True, True, False], bits 1 [True, False, True],
                      bits 2 [True, True], bits 3 [True, True]] i = (i = 2)" for i
    by (auto simp: first_shortest_def getLength_def bits_def nth_Cons less_Suc_eq
        split: nat.splits)
  note policy = updateArchive_replacement_policy [OF 1 2 3, of ?a]
  from policy have one: "map_of (updateArchive ?F ?a [?c]) 0 = Some (bits 0 [True, True, False])"
    by (simp add: oneMax_def bits_def getLength_def)
  from policy have "\<exists>i. first_shortest (current_entry ?a 0 @ optimal_candidates (oneMax 2) ?cs) i
      \<and> map_of (updateArchive ?F ?a ?cs) 0
          = Some ((current_entry ?a 0 @ optimal_candidates (oneMax 2) ?cs) ! i)"
    unfolding Let_def by (simp only: pool list.distinct if_False)
  then have "map_of (updateArchive ?F ?a ?cs) 0 = Some (bits 2 [True, True])"
    unfolding pool fs by simp
  with one fs [of 2] show ?thesis by simp
qed

text \<open>
  C3, at an input where the code departs from the claim: population size 4, one goal
  that no chromosome covers, and a first iteration in which the random selection picks
  the parent at index 1 every time and neither crossover nor mutation takes place, so
  the offspring are that one chromosome object four times. The maps of
  \<open>fastNonDominatedSorting\<close> are keyed by the object, its domination count passes zero
  once, and it enters a front once: the fronts hold three chromosomes, and the next
  parent population has three chromosomes, not four.
\<close>

theorem MOSA_population_shrinks:
  "getPopulationSize collaborators4 = 4
   \<and> length (mosa_parentPopulation (MOSA_init collaborators4 [(0, oneMax 4)] 0 0)) = 4
   \<and> MOSA_loop collaborators4 [(0, oneMax 4)] 1 (MOSA_init collaborators4 [(0, oneMax 4)] 0 0)
      = Inr \<lparr> mosa_iterations = 1, mosa_bestIndividuals = [], mosa_archive = [],
              mosa_parentPopulation =
                [bits 11 [True, False, False, False], bits 12 [True, True, False, False],
                 bits 10 [True, True, True, False]],
              mosa_world = 0 \<rparr>"
proof -
  have "MOSA_loop collaborators4 [(0, oneMax 4)] (Suc 0)
          \<lparr> mosa_iterations = 0, mosa_bestIndividuals = [], mosa_archive = [],
            mosa_parentPopulation = population4, mosa_world = 0 \<rparr>
      = Inr \<lparr> mosa_iterations = 1, mosa_bestIndividuals = [], mosa_archive = [],
              mosa_parentPopulation =
                [bits 11 [True, False, False, False], bits 12 [True, True, False, False],
                 bits 10 [True, True, True, False]],
              mosa_world = 0 \<rparr>"
    by (simp add: iteration4 finished4)
  then show ?thesis
    by (simp add: init4 populationSize4) (simp add: population4_def)
qed

text \<open>
  C4: \<open>a\<close> dominates \<open>b\<close> iff on every goal without an archive entry \<open>a\<close> compares no
  worse than \<open>b\<close>, and strictly better on at least one of them; when every \<open>compare\<close>
  is a total order, dominance is asymmetric and transitive.
\<close>

theorem dominates_strict_partial_order:
  assumes "\<forall>ff \<in> set (values_of F). total_order_compare (compare ff)"
  shows "(dominates F A a b =
            ((\<forall>ff \<in> set (uncovered F A). 0 \<le> compareFitness ff a b)
             \<and> (\<exists>ff \<in> set (uncovered F A). 0 < compareFitness ff a b)))
    \<and> (dominates F A a b \<longrightarrow> \<not> dominates F A b a)
    \<and> (dominates F A a b \<and> dominates F A b c \<longrightarrow> dominates F A a c)"
proof -
  have t: "total_order_compare (compare ff)" if "ff \<in> set (uncovered F A)" for ff
    using assms that by (auto simp: uncovered_def values_of_def)
  have anti: "(0 < compareFitness ff x y) = (compareFitness ff y x < 0)"
    if "ff \<in> set (uncovered F A)" for ff x y
    using t [OF that] by (simp add: total_order_compare_def compareFitness_def)
  have trans: "0 \<le> compareFitness ff x y \<Longrightarrow> 0 \<le> compareFitness ff y z
      \<Longrightarrow> 0 \<le> compareFitness ff x z"
    if "ff \<in> set (uncovered F A)" for ff x y z
    using t [OF that] unfolding total_order_compare_def compareFitness_def by blast
  have asym: "\<not> dominates F A b a" if "dominates F A a b"
  proof -
    from that obtain ff where ff: "ff \<in> set (uncovered F A)" "0 < compareFitness ff a b"
      by (auto simp: dominates_iff)
    with anti [OF ff(1), of a b] have lt: "compareFitness ff b a < 0" by simp
    show ?thesis
    proof
      assume "dominates F A b a"
      with ff(1) have "0 \<le> compareFitness ff b a" by (simp add: dominates_iff)
      with lt show False by simp
    qed
  qed
  have tr: "dominates F A a c" if ab: "dominates F A a b" and bc: "dominates F A b c"
  proof -
    have all: "\<forall>ff \<in> set (uncovered F A). 0 \<le> compareFitness ff a c"
      using ab bc trans by (auto simp: dominates_iff)
    from ab obtain ff where ff: "ff \<in> set (uncovered F A)" "0 < compareFitness ff a b"
      by (auto simp: dominates_iff)
    have "0 < compareFitness ff a c"
    proof (rule ccontr)
      assume "\<not> 0 < compareFitness ff a c"
      with anti [OF ff(1), of a c] have "0 \<le> compareFitness ff c a"
        using anti [OF ff(1), of c a] by linarith
      moreover from bc ff(1) have "0 \<le> compareFitness ff b c" by (auto simp: dominates_iff)
      ultimately have "0 \<le> compareFitness ff b a" by (rule trans [OF ff(1), rotated])
      with anti [OF ff(1), of a b] ff(2) show False by simp
    qed
    with all ff(1) show ?thesis by (auto simp: dominates_iff)
  qed
  from asym tr dominates_iff [of F A a b] show ?thesis by blast
qed

theorem dominates_strict_partial_order_witness:
  "dominates [(0, oneMax 3), (1, oneMax 2)] [(1, bits 9 [True, True])]
      (bits 0 [True, True, True]) (bits 1 [True, True, False])
   \<and> dominates [(0, oneMax 3), (1, oneMax 2)] [(1, bits 9 [True, True])]
      (bits 1 [True, True, False]) (bits 2 [True, False, False])
   \<and> dominates [(0, oneMax 3), (1, oneMax 2)] [(1, bits 9 [True, True])]
      (bits 0 [True, True, True]) (bits 2 [True, False, False])
   \<and> \<not> dominates [(0, oneMax 3), (1, oneMax 2)] [(1, bits 9 [True, True])]
      (bits 1 [True, True, False]) (bits 0 [True, True, True])"
proof -
  let ?F = "[(0, oneMax 3), (1, oneMax 2)]" and ?A = "[(1, bits 9 [True, True])]"
  have t: "\<forall>ff \<in> set (values_of ?F). total_order_compare (compare ff)"
    by (simp add: values_of_def total_order_compare_def oneMax_def)
  have ab: "dominates ?F ?A (bits 0 [True, True, True]) (bits 1 [True, True, False])"
    by (simp add: dominates_def has_def oneMax_def bits_def)
  have bc: "dominates ?F ?A (bits 1 [True, True, False]) (bits 2 [True, False, False])"
    by (simp add: dominates_def has_def oneMax_def bits_def)
  from dominates_strict_partial_order [OF t, of ?A "bits 0 [True, True, True]"
      "bits 1 [True, True, False]" "bits 2 [True, False, False]"] ab bc
  show ?thesis by blast
qed

text \<open>
  C5: when every \<open>compare\<close> is a total order and the combined population \<open>R\<close> is not
  empty, \<open>preferenceSorting\<close> returns the preferred front (left out when empty)
  followed by the fronts of \<open>fastNonDominatedSorting\<close> on the remaining chromosomes, or
  by the remaining chromosomes as one front when the preferred front is larger than
  the population size. The preferred front holds, each once, exactly the preferred
  chromosomes of the goals without an archive entry, and the remaining chromosomes are
  \<open>R\<close> without one occurrence of each of them.
\<close>

theorem preferenceSorting_fronts:
  assumes "\<forall>ff \<in> set (values_of F). total_order_compare (compare ff)" and "R \<noteq> []"
  shows "\<exists>bestFront rest.
      preferenceSorting E F A R
        = Inr ((if bestFront = [] then [] else [bestFront])
               @ (if length bestFront > getPopulationSize E then [rest]
                  else fastNonDominatedSorting F A rest))
      \<and> preferred_front (set (uncovered F A)) R bestFront
      \<and> mset rest + mset bestFront = mset R"
proof -
  have "preferred_front {} R []" by (simp add: preferred_front_def)
  from preferenceSorting_goals_front [OF assms this, of R A]
  obtain bf rest where "preferenceSorting_goals A R F ([], R) = Inr (bf, rest)"
    and "preferred_front (set (uncovered F A)) R bf" and "mset rest + mset bf = mset R"
    by auto
  then show ?thesis
    by (intro exI [of _ bf] exI [of _ rest]) (simp add: preferenceSorting_def)
qed

theorem preferenceSorting_fronts_witness:
  "preferenceSorting collaborators4 [(0, oneMax 4)] [] combined4
     = Inr [[bits 10 [True, True, True, False]], [bits 12 [True, True, False, False]],
            [bits 11 [True, False, False, False]]]
   \<and> preferred_front (set (uncovered [(0, oneMax 4)] [])) combined4
       [bits 10 [True, True, True, False]]
   \<and> preferred (oneMax 4) combined4 0"
proof -
  let ?F = "[(0::nat, oneMax 4)]"
  have t: "\<forall>ff \<in> set (values_of ?F). total_order_compare (compare ff)"
    by (simp add: values_of_def total_order_compare_def oneMax_def)
  have ne: "combined4 \<noteq> []" by (simp add: combined4_def population4_def)
  have u: "uncovered ?F [] = [oneMax 4]" by (simp add: uncovered_def has_def)
  from preferenceSorting_fronts [OF t ne, of collaborators4 "[]"]
  obtain bestFront rest where
    r: "preferenceSorting collaborators4 ?F [] combined4
        = Inr ((if bestFront = [] then [] else [bestFront])
               @ (if length bestFront > getPopulationSize collaborators4 then [rest]
                  else fastNonDominatedSorting ?F [] rest))"
    and p: "preferred_front (set (uncovered ?F [])) combined4 bestFront"
    by blast
  from p have "bestFront \<noteq> []"
    by (auto simp: preferred_front_def u)
  with r have "bestFront = [bits 10 [True, True, True, False]]"
    by (simp add: preferenceSorting4)
  with p have pf: "preferred_front (set (uncovered ?F [])) combined4
       [bits 10 [True, True, True, False]]" by simp
  then obtain i where i: "preferred (oneMax 4) combined4 i"
    "combined4 ! i = bits 10 [True, True, True, False]"
    by (auto simp: preferred_front_def u)
  have "i = 0"
  proof (rule ccontr)
    assume "i \<noteq> 0"
    with i(1) have "i < 8" "0 < i" by (simp_all add: preferred_def combined4_def population4_def)
    then have "i \<in> {1, 2, 3, 4, 5, 6, 7}" by auto
    with i(2) show False
      by (auto simp: combined4_def population4_def bits_def)
  qed
  with i(1) pf preferenceSorting4 show ?thesis by simp
qed

text \<open>
  C6: for a cut point \<open>r\<close> strictly between 0 and 1, the two offspring of
  SinglePointRelativeCrossover have together as many genes as the two parents, neither
  is longer than the longer parent, and the genes of the offspring are, as a multiset,
  the genes of the parents.
\<close>

theorem SinglePointRelativeCrossover_conservation:
  assumes "0 < r" and "r < 1"
    and "SinglePointRelativeCrossover_apply r fresh parent1 parent2 = (offspring1, offspring2)"
  shows "getLength offspring1 + getLength offspring2 = getLength parent1 + getLength parent2
    \<and> getLength offspring1 \<le> max (getLength parent1) (getLength parent2)
    \<and> getLength offspring2 \<le> max (getLength parent1) (getLength parent2)
    \<and> mset (genes offspring1) + mset (genes offspring2)
        = mset (genes parent1) + mset (genes parent2)"
proof -
  let ?n1 = "getLength parent1" and ?n2 = "getLength parent2"
  let ?k1 = "cutPoint r ?n1" and ?k2 = "cutPoint r ?n2"
  from assms have r: "0 \<le> r" "r \<le> 1" by simp_all
  from assms(3) have o1: "genes offspring1 = take ?k1 (genes parent1) @ drop ?k2 (genes parent2)"
    and o2: "genes offspring2 = take ?k2 (genes parent2) @ drop ?k1 (genes parent1)"
    by (auto simp: SinglePointRelativeCrossover_apply_def Let_def)
  have k1: "?k1 \<le> ?n1" and k2: "?k2 \<le> ?n2"
    using r by (rule cutPoint_le)+
  have l1: "getLength offspring1 = ?k1 + (?n2 - ?k2)"
    using k1 by (simp add: getLength_def o1 min_def)
  have l2: "getLength offspring2 = ?k2 + (?n1 - ?k1)"
    using k2 by (simp add: getLength_def o2 min_def)
  have "getLength offspring1 + getLength offspring2 = ?n1 + ?n2"
    using k1 k2 by (simp add: l1 l2)
  moreover have "getLength offspring1 \<le> max ?n1 ?n2"
    unfolding l1 by (rule offspring_length_le [OF r])
  moreover have "getLength offspring2 \<le> max ?n1 ?n2"
    unfolding l2 using offspring_length_le [OF r, of ?n2 ?n1] by (simp add: max.commute)
  moreover have "mset (genes offspring1) + mset (genes offspring2)
        = mset (genes parent1) + mset (genes parent2)"
    unfolding o1 o2 by (rule mset_swap_tails)
  ultimately show ?thesis by simp
qed

theorem SinglePointRelativeCrossover_conservation_witness:
  "SinglePointRelativeCrossover_apply (1 / 2) (7, 8) (bits 0 [True, True])
       (bits 1 [False, False, False, False])
     = (bits 7 [True, False, False], bits 8 [False, False, True])
   \<and> getLength (bits 7 [True, False, False]) + getLength (bits 8 [False, False, True])
       = getLength (bits 0 [True, True]) + getLength (bits 1 [False, False, False, False])
   \<and> getLength (bits 7 [True, False, False]) \<le> 4
   \<and> getLength (bits 8 [False, False, True]) \<le> 4"
proof -
  have a: "SinglePointRelativeCrossover_apply (1 / 2) (7, 8) (bits 0 [True, True])
       (bits 1 [False, False, False, False])
     = (bits 7 [True, False, False], bits 8 [False, False, True])"
    by (simp add: SinglePointRelativeCrossover_apply_def cutPoint_def getLength_def bits_def)
  have r: "(0::real) < 1 / 2" "(1::real) / 2 < 1" by simp_all
  from SinglePointRelativeCrossover_conservation [OF r a] a show ?thesis
    by (simp add: getLength_def bits_def)
qed

text \<open>
  C7, as the code has it. \<open>generateTests\<close> returns within \<open>n\<close> passes exactly when the
  stopping condition fires after some \<open>k \<le> n\<close> passes; it then returns after the first
  such \<open>k\<close>, with the object \<open>after_passes\<close> describes. With \<open>cs\<close> the chromosomes the
  generator has yielded in these passes, the suite holds, pass by pass, the test of the
  chromosome of the pass once for every goal that it covers and no chromosome of an
  earlier pass covers (so \<open>m\<close> times when it newly covers \<open>m\<close> goals, and not at all
  when it covers nothing new), and \<open>_tests\<close> has grown by the chromosomes of the suite.
  The tests correspond one to one to the newly covered goals, each test covers its goal
  and no different earlier test does; the suite has as many tests as there are goals
  that some generated chromosome covers, and so no more than there are goals.
\<close>

theorem generateTests_one_test_per_goal:
  assumes "distinct (keys (extractCoverageGoals E))"
  shows "(generateTests E n this = None \<longleftrightarrow> (\<forall>k \<le> n. \<not> finished_after E this k))
    \<and> (generateTests E n this = Some (this', suite) \<longrightarrow>
         (let goals = extractCoverageGoals E;
              k = rtg_iterations this' - rtg_iterations this;
              cs = generated E k (rtg_world this)
          in k \<le> n \<and> finished_after E this k \<and> (\<forall>j < k. \<not> finished_after E this j)
           \<and> this' = after_passes E this k
           \<and> suite = concat (map (\<lambda>t. replicate (length (newly_covered goals cs t))
                                        (WhiskerTest (cs ! t))) [0..<length cs])
           \<and> rtg_tests this' = rtg_tests this @ map chromosome suite
           \<and> one_per_goal goals (concat (map (newly_covered goals cs) [0..<length cs])) suite
           \<and> length suite = length (filter (\<lambda>ff. \<exists>c \<in> set cs. isCovered (snd ff) c) goals)
           \<and> length suite \<le> length goals))"
proof -
  let ?goals = "extractCoverageGoals E"
  from generateTests_characterised [OF assms, of n this] obtain k where k: "k \<le> n"
    and before: "\<forall>j < k. \<not> finished_after E this j"
    and fin: "k < n \<longrightarrow> finished_after E this k"
    and run: "generateTests E n this
          = (if finished_after E this k
             then Some (after_passes E this k,
                        expected_suite ?goals (generated E k (rtg_world this)))
             else None)" by blast
  have none: "generateTests E n this = None \<longleftrightarrow> (\<forall>j \<le> n. \<not> finished_after E this j)"
  proof
    assume "generateTests E n this = None"
    with run have nf: "\<not> finished_after E this k" by (simp split: if_splits)
    with fin k have "k = n" by auto
    with before nf show "\<forall>j \<le> n. \<not> finished_after E this j"
      by (metis le_neq_implies_less)
  next
    assume "\<forall>j \<le> n. \<not> finished_after E this j"
    with k have "\<not> finished_after E this k" by simp
    with run show "generateTests E n this = None" by simp
  qed
  have some: "(let goals = extractCoverageGoals E;
              k = rtg_iterations this' - rtg_iterations this;
              cs = generated E k (rtg_world this)
          in k \<le> n \<and> finished_after E this k \<and> (\<forall>j < k. \<not> finished_after E this j)
           \<and> this' = after_passes E this k
           \<and> suite = concat (map (\<lambda>t. replicate (length (newly_covered goals cs t))
                                        (WhiskerTest (cs ! t))) [0..<length cs])
           \<and> rtg_tests this' = rtg_tests this @ map chromosome suite
           \<and> one_per_goal goals (concat (map (newly_covered goals cs) [0..<length cs])) suite
           \<and> length suite = length (filter (\<lambda>ff. \<exists>c \<in> set cs. isCovered (snd ff) c) goals)
           \<and> length suite \<le> length goals)"
    if ret: "generateTests E n this = Some (this', suite)"
  proof -
    from ret run have f: "finished_after E this k" and this': "this' = after_passes E this k"
      and s: "suite = expected_suite ?goals (generated E k (rtg_world this))"
      by (simp_all split: if_splits)
    have its: "rtg_iterations this' - rtg_iterations this = k"
      by (simp add: this' after_passes_def)
    let ?cs = "generated E k (rtg_world this)"
    have t: "rtg_tests this' = rtg_tests this @ map chromosome suite"
      by (simp add: this' s after_passes_def)
    have o: "one_per_goal ?goals (expected_goals ?goals ?cs) suite"
      unfolding s using assms by (intro one_per_goal_expected) (simp add: keys_def)
    then have len: "length suite = length (expected_goals ?goals ?cs)"
      and dk: "distinct (map fst (expected_goals ?goals ?cs))"
      by (simp_all add: one_per_goal_def)
    from dk have de: "distinct (expected_goals ?goals ?cs)"
      by (rule distinct_map [THEN iffD1, THEN conjunct1])
    from assms have dg: "distinct ?goals"
      by (simp add: keys_def distinct_map)
    have "length (expected_goals ?goals ?cs) = card (set (expected_goals ?goals ?cs))"
      using de by (simp add: distinct_card)
    also have "\<dots> = card {ff \<in> set ?goals. \<exists>c \<in> set ?cs. isCovered (snd ff) c}"
      by (simp add: set_expected_goals)
    also have "\<dots> = length (filter (\<lambda>ff. \<exists>c \<in> set ?cs. isCovered (snd ff) c) ?goals)"
      using dg by (simp add: distinct_length_filter Int_def conj_commute)
    finally have l: "length suite
        = length (filter (\<lambda>ff. \<exists>c \<in> set ?cs. isCovered (snd ff) c) ?goals)"
      using len by simp
    then have "length suite \<le> length ?goals" by simp
    with k f before this' s t o l show ?thesis
      unfolding Let_def its by (simp add: expected_suite_def expected_goals_def)
  qed
  from none some show ?thesis by blast
qed

theorem generateTests_one_test_per_goal_witness:
  "map_option snd (generateTests randomCollaborators3 3 randomTestGenerator0)
       = Some [WhiskerTest (bits 0 [True, False, True, False]),
               WhiskerTest (bits 0 [True, False, True, False]),
               WhiskerTest (bits 20 [False, False, False, True])]
   \<and> generated randomCollaborators3 3 0
       = [bits 0 [True, False, True, False], bits 10 [True, False, False, False],
          bits 20 [False, False, False, True]]
   \<and> concat (map (newly_covered [(0, singleBit 0), (2, singleBit 2), (3, singleBit 3)]
                    [bits 0 [True, False, True, False], bits 10 [True, False, False, False],
                     bits 20 [False, False, False, True]]) [0, Suc 0, 2])
       = [(0, singleBit 0), (2, singleBit 2), (3, singleBit 3)]
   \<and> one_per_goal [(0, singleBit 0), (2, singleBit 2), (3, singleBit 3)]
         [(0, singleBit 0), (2, singleBit 2), (3, singleBit 3)]
         [WhiskerTest (bits 0 [True, False, True, False]),
          WhiskerTest (bits 0 [True, False, True, False]),
          WhiskerTest (bits 20 [False, False, False, True])]
   \<and> finished_after randomCollaborators3 randomTestGenerator0 3
   \<and> length [WhiskerTest (bits 0 [True, False, True, False]),
              WhiskerTest (bits 0 [True, False, True, False]),
              WhiskerTest (bits 20 [False, False, False, True])] \<le> 3"
proof -
  let ?G = "[(0::nat, singleBit 0), (2, singleBit 2), (3, singleBit 3)]"
  let ?cs = "[bits 0 [True, False, True, False], bits 10 [True, False, False, False],
      bits 20 [False, False, False, True]]"
  let ?suite = "[WhiskerTest (bits 0 [True, False, True, False]),
          WhiskerTest (bits 0 [True, False, True, False]),
          WhiskerTest (bits 20 [False, False, False, True])]"
  let ?ret = "\<lparr> rtg_startTime = 0, rtg_iterations = 3,
               rtg_tests = [bits 0 [True, False, True, False], bits 0 [True, False, True, False],
                            bits 20 [False, False, False, True]],
               rtg_fitnessFunctions = ?G, rtg_world = 30 \<rparr>"
  have d: "distinct (keys (extractCoverageGoals randomCollaborators3))"
    by (simp add: randomCollaborators3_def keys_def)
  have g: "extractCoverageGoals randomCollaborators3 = ?G"
    by (simp add: randomCollaborators3_def)
  have i: "rtg_iterations ?ret - rtg_iterations randomTestGenerator0 = 3"
    "rtg_world randomTestGenerator0 = 0"
    by (simp_all add: randomTestGenerator0_def)
  have u: "[0..<length ?cs] = [0, Suc 0, 2]"
    by (simp add: upt_rec)
  have c: "concat (map (newly_covered ?G ?cs) [0, Suc 0, 2]) = ?G"
    by (simp add: newly3)
  note run = generateTests_one_test_per_goal [OF d,
      where n = 3 and this = randomTestGenerator0 and this' = ?ret and suite = ?suite,
      THEN conjunct2, THEN mp, OF randomSearch_run3, unfolded Let_def g i generated3]
  from run have f: "finished_after randomCollaborators3 randomTestGenerator0 3"
    by (rule conjunct2 [THEN conjunct1])
  from run have "one_per_goal ?G (concat (map (newly_covered ?G ?cs) [0..<length ?cs])) ?suite"
    by (rule conjunct2 [THEN conjunct2, THEN conjunct2, THEN conjunct2, THEN conjunct2,
          THEN conjunct2, THEN conjunct1])
  then have "one_per_goal ?G ?G ?suite"
    unfolding u c .
  with randomSearch_run3 generated3 c f show ?thesis
    by simp
qed

text \<open>
  C7 as the spec words it fails where one chromosome covers two goals that are still
  uncovered: the test is added once for each of them, so the suite holds it twice and
  its second copy covers nothing the first does not.
\<close>

theorem generateTests_duplicates:
  "map_option snd (generateTests randomCollaborators 1 randomTestGenerator0)
       = Some [WhiskerTest (bits 0 [True, True]), WhiskerTest (bits 0 [True, True])]
   \<and> \<not> distinct [WhiskerTest (bits 0 [True, True]), WhiskerTest (bits 0 [True, True])]
   \<and> \<not> covers_new (extractCoverageGoals randomCollaborators)
         [WhiskerTest (bits 0 [True, True]), WhiskerTest (bits 0 [True, True])]"
  using randomSearch_run covers_new_twice by simp

text \<open>
  C8, at the input where the code departs from the claim: for the value \<open>simplega\<close>
  \<open>getAlgorithm\<close> returns \<open>SearchAlgorithmType.SIMPLEGA\<close>, which the enum does not
  declare, so the result is \<open>undefined\<close> and no error is raised. The other four names
  reach declared members, and every other string raises the IllegalArgumentException
  whose message starts "Invalid configuration".
\<close>

theorem getAlgorithm_simplega_undefined:
  "getAlgorithm [(''algorithm'', JStr ''simplega'')] = Inr None
   \<and> getAlgorithm [(''algorithm'', JStr ''random'')] = Inr (Some RANDOM)
   \<and> getAlgorithm [(''algorithm'', JStr ''one-plus-one'')] = Inr (Some ONE_PLUS_ONE)
   \<and> getAlgorithm [(''algorithm'', JStr ''mosa'')] = Inr (Some MOSA)
   \<and> getAlgorithm [(''algorithm'', JStr ''mio'')] = Inr (Some MIO)
   \<and> getAlgorithm [(''algorithm'', JStr ''nsga'')]
       = Inl (IllegalArgumentException ''Invalid configuration. Unknown algorithm: '' (JStr ''nsga''))"
  by (simp add: getAlgorithm_def dict_get_def SearchAlgorithmType_member_def)

text \<open>
  C9: a value that no \<open>case\<close> label matches is taken as the default, for every
  configuration dictionary. An unrecognized name of the crossover operator, the
  selection operator or the fitness function type gives SinglePointCrossover,
  RankSelection and the single-bit fitness type without error. An unrecognized name of
  the mutation operator or of the chromosome gives what the name of the default
  (\<open>integerlist\<close>, \<open>test\<close>) gives on the same dictionary: IntegerListMutation and the
  test chromosome generator whenever their arguments can be read, and never an object
  of another kind; so the name raises no error of its own. None of the operator and
  fitness type getters ever raises a ConfigException or an IllegalArgumentException.
\<close>

theorem unrecognized_values_fall_back:
  "(property (dict_get dict ''mutation'') ''operator'' = Inr mutationOperator
      \<and> mutationOperator \<noteq> JStr ''bitflip'' \<and> mutationOperator \<noteq> JStr ''variablelength''
    \<longrightarrow> getMutationOperator dict
          = getMutationOperator
              (with_property ''mutation'' ''operator'' (JStr ''integerlist'') dict)
        \<and> (\<forall>m. getMutationOperator dict = Inr m \<longrightarrow> (\<exists>a b. m = IntegerListMutation a b))
        \<and> (property (dict_get dict ''integerRange'') ''min'' = Inr mn
             \<and> property (dict_get dict ''integerRange'') ''max'' = Inr mx
           \<longrightarrow> getMutationOperator dict = Inr (IntegerListMutation mn mx)))
   \<and> (property (dict_get dict ''crossover'') ''operator'' = Inr crossoverOperator
        \<and> crossoverOperator \<noteq> JStr ''singlepointrelative''
      \<longrightarrow> getCrossoverOperator dict = Inr SinglePointCrossover
          \<and> getCrossoverOperator dict
              = getCrossoverOperator
                  (with_property ''crossover'' ''operator'' (JStr ''singlepoint'') dict))
   \<and> (property (dict_get dict ''selection'') ''operator'' = Inr selectionOperator
        \<and> selectionOperator \<noteq> JStr ''tournament''
      \<longrightarrow> getSelectionOperator dict = Inr RankSelection
          \<and> getSelectionOperator dict
              = getSelectionOperator
                  (with_property ''selection'' ''operator'' (JStr ''rank'') dict))
   \<and> (dict_get dict ''chromosome'' \<noteq> JStr ''bitstring''
        \<and> dict_get dict ''chromosome'' \<noteq> JStr ''integerlist''
        \<and> dict_get dict ''chromosome'' \<noteq> JStr ''variablelengthtest''
      \<longrightarrow> getChromosomeGenerator dict
            = getChromosomeGenerator (AList.update ''chromosome'' (JStr ''test'') dict)
          \<and> (\<forall>g. getChromosomeGenerator dict = Inr g
                \<longrightarrow> (\<exists>a b c. g = TestChromosomeGenerator a b c))
          \<and> (getSearchAlgorithmProperties dict = Inr p
               \<and> getMutationOperator dict = Inr m
               \<and> getCrossoverOperator dict = Inr c
             \<longrightarrow> getChromosomeGenerator dict = Inr (TestChromosomeGenerator p m c)))
   \<and> (property (dict_get dict ''fitness-function'') ''type'' = Inr fitnessType
        \<and> fitnessType \<noteq> JStr ''statement'' \<and> fitnessType \<noteq> JStr ''one-max''
      \<longrightarrow> getFitnessFunctionType dict = Inr SINGLE_BIT
          \<and> getFitnessFunctionType dict
              = getFitnessFunctionType
                  (with_property ''fitness-function'' ''type'' (JStr ''single-bit'') dict))
   \<and> (\<forall>message v. getMutationOperator dict \<noteq> Inl (ConfigException message)
          \<and> getMutationOperator dict \<noteq> Inl (IllegalArgumentException message v)
          \<and> getCrossoverOperator dict \<noteq> Inl (ConfigException message)
          \<and> getCrossoverOperator dict \<noteq> Inl (IllegalArgumentException message v)
          \<and> getSelectionOperator dict \<noteq> Inl (ConfigException message)
          \<and> getSelectionOperator dict \<noteq> Inl (IllegalArgumentException message v)
          \<and> getFitnessFunctionType dict \<noteq> Inl (ConfigException message)
          \<and> getFitnessFunctionType dict \<noteq> Inl (IllegalArgumentException message v))"
proof -
  have me: "getMutationOperator dict = Inl e \<Longrightarrow> e = TypeError" for e
    by (auto simp: getMutationOperator_def andThen_def split: sum.splits if_splits
        dest: property_error)
  have ce: "getCrossoverOperator dict = Inl e \<Longrightarrow> e = TypeError" for e
    by (auto simp: getCrossoverOperator_def andThen_def split: sum.splits if_splits
        dest: property_error)
  have se: "getSelectionOperator dict = Inl e \<Longrightarrow> e = TypeError" for e
    by (auto simp: getSelectionOperator_def andThen_def split: sum.splits if_splits
        dest: property_error)
  have fe: "getFitnessFunctionType dict = Inl e \<Longrightarrow> e = TypeError" for e
    by (auto simp: getFitnessFunctionType_def andThen_def split: sum.splits if_splits
        dest: property_error)
  have never: "\<forall>message v. getMutationOperator dict \<noteq> Inl (ConfigException message)
          \<and> getMutationOperator dict \<noteq> Inl (IllegalArgumentException message v)
          \<and> getCrossoverOperator dict \<noteq> Inl (ConfigException message)
          \<and> getCrossoverOperator dict \<noteq> Inl (IllegalArgumentException message v)
          \<and> getSelectionOperator dict \<noteq> Inl (ConfigException message)
          \<and> getSelectionOperator dict \<noteq> Inl (IllegalArgumentException message v)
          \<and> getFitnessFunctionType dict \<noteq> Inl (ConfigException message)
          \<and> getFitnessFunctionType dict \<noteq> Inl (IllegalArgumentException message v)"
    using me ce se fe by (metis error.distinct(7) error.distinct(5))
  have mutation: "getMutationOperator dict
          = getMutationOperator
              (with_property ''mutation'' ''operator'' (JStr ''integerlist'') dict)
        \<and> (\<forall>m. getMutationOperator dict = Inr m \<longrightarrow> (\<exists>a b. m = IntegerListMutation a b))
        \<and> (property (dict_get dict ''integerRange'') ''min'' = Inr mn
             \<and> property (dict_get dict ''integerRange'') ''max'' = Inr mx
           \<longrightarrow> getMutationOperator dict = Inr (IntegerListMutation mn mx))"
    if "property (dict_get dict ''mutation'') ''operator'' = Inr mutationOperator"
      "mutationOperator \<noteq> JStr ''bitflip''" "mutationOperator \<noteq> JStr ''variablelength''"
    using getMutationOperator_named [OF that] getMutationOperator_default [OF that]
    by (auto simp: andThen_def split: sum.splits)
  have crossover: "getCrossoverOperator dict = Inr SinglePointCrossover
          \<and> getCrossoverOperator dict
              = getCrossoverOperator
                  (with_property ''crossover'' ''operator'' (JStr ''singlepoint'') dict)"
    if "property (dict_get dict ''crossover'') ''operator'' = Inr crossoverOperator"
      "crossoverOperator \<noteq> JStr ''singlepointrelative''"
    using that by (simp add: getCrossoverOperator_named) (simp add: getCrossoverOperator_def andThen_def)
  have selection: "getSelectionOperator dict = Inr RankSelection
          \<and> getSelectionOperator dict
              = getSelectionOperator
                  (with_property ''selection'' ''operator'' (JStr ''rank'') dict)"
    if "property (dict_get dict ''selection'') ''operator'' = Inr selectionOperator"
      "selectionOperator \<noteq> JStr ''tournament''"
    using that by (simp add: getSelectionOperator_named) (simp add: getSelectionOperator_def andThen_def)
  have fitness: "getFitnessFunctionType dict = Inr SINGLE_BIT
          \<and> getFitnessFunctionType dict
              = getFitnessFunctionType
                  (with_property ''fitness-function'' ''type'' (JStr ''single-bit'') dict)"
    if "property (dict_get dict ''fitness-function'') ''type'' = Inr fitnessType"
      "fitnessType \<noteq> JStr ''statement''" "fitnessType \<noteq> JStr ''one-max''"
    using that by (simp add: getFitnessFunctionType_named)
      (simp add: getFitnessFunctionType_def andThen_def)
  have generator: "getChromosomeGenerator dict
            = getChromosomeGenerator (AList.update ''chromosome'' (JStr ''test'') dict)
          \<and> (\<forall>g. getChromosomeGenerator dict = Inr g
                \<longrightarrow> (\<exists>a b c. g = TestChromosomeGenerator a b c))
          \<and> (getSearchAlgorithmProperties dict = Inr p
               \<and> getMutationOperator dict = Inr m
               \<and> getCrossoverOperator dict = Inr c
             \<longrightarrow> getChromosomeGenerator dict = Inr (TestChromosomeGenerator p m c))"
    if "dict_get dict ''chromosome'' \<noteq> JStr ''bitstring''"
      "dict_get dict ''chromosome'' \<noteq> JStr ''integerlist''"
      "dict_get dict ''chromosome'' \<noteq> JStr ''variablelengthtest''"
    using getChromosomeGenerator_named [OF that] getChromosomeGenerator_default [OF that]
    by (auto simp: andThen_def split: sum.splits)
  from mutation crossover selection fitness generator never show ?thesis by blast
qed

theorem unrecognized_values_fall_back_witness:
  "getMutationOperator exampleConfiguration = Inr (IntegerListMutation (JNum 0) (JNum 7))
   \<and> getMutationOperator
        (with_property ''mutation'' ''operator'' (JStr ''integerlist'') exampleConfiguration)
       = Inr (IntegerListMutation (JNum 0) (JNum 7))
   \<and> getCrossoverOperator exampleConfiguration = Inr SinglePointCrossover
   \<and> getSelectionOperator exampleConfiguration = Inr RankSelection
   \<and> getChromosomeGenerator exampleConfiguration
       = Inr (TestChromosomeGenerator exampleProperties
                (IntegerListMutation (JNum 0) (JNum 7)) SinglePointCrossover)
   \<and> getChromosomeGenerator (AList.update ''chromosome'' (JStr ''test'') exampleConfiguration)
       = Inr (TestChromosomeGenerator exampleProperties
                (IntegerListMutation (JNum 0) (JNum 7)) SinglePointCrossover)
   \<and> getFitnessFunctionType exampleConfiguration = Inr SINGLE_BIT
   \<and> getMutationOperator [(''mutation'', JObj [(''operator'', JStr ''swap'')])]
       = getMutationOperator [(''mutation'', JObj [(''operator'', JStr ''integerlist'')])]"
proof -
  note fall = unrecognized_values_fall_back [of exampleConfiguration "JStr ''swap''"
      "JNum 0" "JNum 7" "JStr ''uniform''" "JStr ''roulette''" exampleProperties
      "IntegerListMutation (JNum 0) (JNum 7)" SinglePointCrossover "JStr ''branch''"]
  have 1: "property (dict_get exampleConfiguration ''mutation'') ''operator'' = Inr (JStr ''swap'')"
    "property (dict_get exampleConfiguration ''integerRange'') ''min'' = Inr (JNum 0)"
    "property (dict_get exampleConfiguration ''integerRange'') ''max'' = Inr (JNum 7)"
    "property (dict_get exampleConfiguration ''crossover'') ''operator'' = Inr (JStr ''uniform'')"
    "property (dict_get exampleConfiguration ''selection'') ''operator'' = Inr (JStr ''roulette'')"
    "property (dict_get exampleConfiguration ''fitness-function'') ''type'' = Inr (JStr ''branch'')"
    "dict_get exampleConfiguration ''chromosome'' = JStr ''zebra''"
    by (simp_all add: exampleConfiguration_def dict_get_def)
  have pm: "property (dict_get exampleConfiguration ''mutation'') ''operator'' = Inr (JStr ''swap'')
      \<and> JStr ''swap'' \<noteq> JStr ''bitflip'' \<and> JStr ''swap'' \<noteq> JStr ''variablelength''"
    by (simp add: 1)
  note mutation = fall [THEN conjunct1, THEN mp, OF pm]
  from mutation
  have m': "getMutationOperator exampleConfiguration
        = getMutationOperator
            (with_property ''mutation'' ''operator'' (JStr ''integerlist'') exampleConfiguration)"
    by (rule conjunct1)
  from mutation 1(2,3)
  have m: "getMutationOperator exampleConfiguration = Inr (IntegerListMutation (JNum 0) (JNum 7))"
    by blast
  from fall have c: "getCrossoverOperator exampleConfiguration = Inr SinglePointCrossover"
    and s: "getSelectionOperator exampleConfiguration = Inr RankSelection"
    and f: "getFitnessFunctionType exampleConfiguration = Inr SINGLE_BIT"
    by (simp_all add: 1)
  have pg: "dict_get exampleConfiguration ''chromosome'' \<noteq> JStr ''bitstring''
        \<and> dict_get exampleConfiguration ''chromosome'' \<noteq> JStr ''integerlist''
        \<and> dict_get exampleConfiguration ''chromosome'' \<noteq> JStr ''variablelengthtest''"
    by (simp add: 1)
  note generator =
    fall [THEN conjunct2, THEN conjunct2, THEN conjunct2, THEN conjunct1, THEN mp, OF pg]
  from generator
  have g': "getChromosomeGenerator exampleConfiguration
       = getChromosomeGenerator (AList.update ''chromosome'' (JStr ''test'') exampleConfiguration)"
    by (rule conjunct1)
  from generator m c exampleConfiguration_properties
  have g: "getChromosomeGenerator exampleConfiguration
       = Inr (TestChromosomeGenerator exampleProperties
                (IntegerListMutation (JNum 0) (JNum 7)) SinglePointCrossover)"
    by blast
  let ?d = "[(''mutation'', JObj [(''operator'', JStr ''swap'')])]"
  have 2: "property (dict_get ?d ''mutation'') ''operator'' = Inr (JStr ''swap'')"
    "with_property ''mutation'' ''operator'' (JStr ''integerlist'') ?d
       = [(''mutation'', JObj [(''operator'', JStr ''integerlist'')])]"
    by (simp_all add: dict_get_def with_property_def)
  have pd: "property (dict_get ?d ''mutation'') ''operator'' = Inr (JStr ''swap'')
      \<and> JStr ''swap'' \<noteq> JStr ''bitflip'' \<and> JStr ''swap'' \<noteq> JStr ''variablelength''"
    by (simp add: 2)
  from unrecognized_values_fall_back [of ?d "JStr ''swap''", THEN conjunct1, THEN mp, OF pd]
  have "getMutationOperator ?d
       = getMutationOperator (with_property ''mutation'' ''operator'' (JStr ''integerlist'') ?d)"
    by (rule conjunct1)
  then have e: "getMutationOperator ?d
       = getMutationOperator [(''mutation'', JObj [(''operator'', JStr ''integerlist'')])]"
    unfolding 2(2) .
  from m' m have m2: "getMutationOperator
        (with_property ''mutation'' ''operator'' (JStr ''integerlist'') exampleConfiguration)
       = Inr (IntegerListMutation (JNum 0) (JNum 7))" by simp
  from g' g have g2: "getChromosomeGenerator
        (AList.update ''chromosome'' (JStr ''test'') exampleConfiguration)
       = Inr (TestChromosomeGenerator exampleProperties
                (IntegerListMutation (JNum 0) (JNum 7)) SinglePointCrossover)" by simp
  from m m2 c s f g g2 e show ?thesis by blast
qed

text \<open>
  C10: on a RandomTestGenerator, \<open>findSolution\<close> and the six setters throw
  NotSupportedFunctionException whatever the object and the argument are, while the
  observables \<open>getNumberOfIterations\<close>, \<open>getCurrentSolution\<close> and \<open>getStartTime\<close> return
  the fields of the object.
\<close>

theorem RandomTestGenerator_unsupported:
  "findSolution this = Inl NotSupportedFunctionException
   \<and> setChromosomeGenerator this generator = Inl NotSupportedFunctionException
   \<and> setFitnessFunction this ff = Inl NotSupportedFunctionException
   \<and> setFitnessFunctions this ffs = Inl NotSupportedFunctionException
   \<and> setHeuristicFunctions this hs = Inl NotSupportedFunctionException
   \<and> setProperties this properties = Inl NotSupportedFunctionException
   \<and> setSelectionOperator this sel = Inl NotSupportedFunctionException
   \<and> getNumberOfIterations this = rtg_iterations this
   \<and> getCurrentSolution this = rtg_tests this
   \<and> getStartTime this = rtg_startTime this"
  by (simp add: findSolution_def setChromosomeGenerator_def setFitnessFunction_def
      setFitnessFunctions_def setHeuristicFunctions_def setProperties_def
      setSelectionOperator_def getNumberOfIterations_def getCurrentSolution_def
      getStartTime_def)

section \<open>Further properties\<close>

text \<open>
  X1: \<open>generateOffspringPopulation\<close> returns exactly as many offspring as there are
  parents, whatever the collaborators do: the combined population of an iteration has
  twice the size of the parent population.
\<close>

theorem generateOffspringPopulation_size:
  "length (fst (generateOffspringPopulation E parentPopulation useRankSelection w))
     = length parentPopulation"
  unfolding generateOffspringPopulation_def
  by (rule generateOffspringPopulation_loop_size) simp

text \<open>
  X2: the next parent population of an iteration of MOSA never has more chromosomes than
  the population size.
\<close>

theorem MOSA_population_at_most_N:
  "MOSA_iteration E F st = Inr st' \<Longrightarrow>
   length (mosa_parentPopulation st') \<le> getPopulationSize E"
  using fill_parentPopulation_le [of "[]" E]
  by (auto simp: MOSA_iteration_def Let_def split: sum.splits)

theorem MOSA_population_at_most_N_witness:
  "MOSA_iteration collaborators4 [(0, oneMax 4)]
     \<lparr> mosa_iterations = 0, mosa_bestIndividuals = [], mosa_archive = [],
       mosa_parentPopulation = population4, mosa_world = 0 \<rparr>
   = Inr \<lparr> mosa_iterations = 1, mosa_bestIndividuals = [], mosa_archive = [],
           mosa_parentPopulation =
             [bits 11 [True, False, False, False], bits 12 [True, True, False, False],
              bits 10 [True, True, True, False]],
           mosa_world = 0 \<rparr>
   \<and> length [bits 11 [True, False, False, False], bits 12 [True, True, False, False],
              bits 10 [True, True, True, False]] \<le> getPopulationSize collaborators4"
  using MOSA_population_at_most_N [OF iteration4] iteration4 by simp

text \<open>
  X3: when the chromosomes of the combined population of an iteration of MOSA are
  pairwise distinct objects, the parent population has the population size, every
  \<open>compare\<close> is a total order and \<open>shuffle\<close> keeps the length of a front, the next
  parent population has exactly the population size: the fronts of
  \<open>fastNonDominatedSorting\<close> then hold every chromosome once.
\<close>

theorem MOSA_population_exact:
  assumes t: "\<forall>ff \<in> set (values_of F). total_order_compare (compare ff)"
    and sh: "\<forall>front w. length (fst (shuffle E front w)) = length front"
    and n: "length (mosa_parentPopulation st) = getPopulationSize E"
    and d: "distinct (mosa_parentPopulation st
              @ fst (generateOffspringPopulation E (mosa_parentPopulation st)
                       (0 < mosa_iterations st) (mosa_world st)))"
    and run: "MOSA_iteration E F st = Inr st'"
  shows "length (mosa_parentPopulation st') = getPopulationSize E"
proof -
  let ?off = "generateOffspringPopulation E (mosa_parentPopulation st)
                (0 < mosa_iterations st) (mosa_world st)"
  let ?A = "updateArchive F (mosa_archive st) (fst ?off)"
  let ?R = "mosa_parentPopulation st @ fst ?off"
  from run obtain fronts where p: "preferenceSorting E F ?A ?R = Inr fronts"
    and st': "mosa_parentPopulation st'
        = rev (fst (fill_parentPopulation E F fronts [] (snd ?off)))"
    by (auto simp: MOSA_iteration_def Let_def split: sum.splits)
  from preferenceSorting_length [OF t d p] have "length (concat fronts) = length ?R" .
  then have "getPopulationSize E \<le> length (concat fronts)"
    using n by simp
  moreover from sh have "\<And>front w. length (fst (shuffle E front w)) = length front" by simp
  from fill_parentPopulation_length [OF this, of "[]" F fronts "snd ?off"]
  have "length (fst (fill_parentPopulation E F fronts [] (snd ?off)))
      = min (getPopulationSize E) (length (concat fronts))" by simp
  ultimately show ?thesis by (simp add: st')
qed

theorem MOSA_population_exact_witness:
  "MOSA_iteration collaborators2 [(0, oneMax 3)]
     \<lparr> mosa_iterations = 0, mosa_bestIndividuals = [], mosa_archive = [],
       mosa_parentPopulation = population2, mosa_world = 30 \<rparr>
   = Inr \<lparr> mosa_iterations = 1, mosa_bestIndividuals = [], mosa_archive = [],
           mosa_parentPopulation =
             [bits 21 [True, False, False], bits 20 [True, True, False]],
           mosa_world = 32 \<rparr>
   \<and> length [bits 21 [True, False, False], bits 20 [True, True, False]]
       = getPopulationSize collaborators2"
proof -
  let ?st = "\<lparr> mosa_iterations = 0, mosa_bestIndividuals = [], mosa_archive = [],
       mosa_parentPopulation = population2, mosa_world = 30 \<rparr>"
  have t: "\<forall>ff \<in> set (values_of [(0::nat, oneMax 3)]). total_order_compare (compare ff)"
    by (simp add: values_of_def oneMax_total_order)
  have sh: "\<forall>front w. length (fst (shuffle collaborators2 front w)) = length front"
    by (simp add: collaborators2_def)
  have n: "length (mosa_parentPopulation ?st) = getPopulationSize collaborators2"
    by (simp add: population2_def populationSize2)
  have d: "distinct (mosa_parentPopulation ?st
      @ fst (generateOffspringPopulation collaborators2 (mosa_parentPopulation ?st)
               (0 < mosa_iterations ?st) (mosa_world ?st)))"
    by (simp add: offspring2) (simp add: population2_def bits_def)
  from MOSA_population_exact [OF t sh n d iteration2] iteration2 show ?thesis by simp
qed

text \<open>
  X4: a value that cannot be converted to a string raises a TypeError where the
  configuration converts it: an object with an own property \<open>toString\<close> as the algorithm
  (in the message of the \<open>default\<close> label) and as the type of a stopping condition (in
  the comparison \<open>==\<close>), also inside an array.
\<close>

theorem unconvertible_values_raise:
  "getAlgorithm [(''algorithm'', JObj [(''toString'', JNum 1)])] = Inl TypeError
   \<and> getAlgorithm [(''algorithm'', JArr [JStr ''mosa'', JObj [(''toString'', JNull)]])]
       = Inl TypeError
   \<and> getAlgorithm [(''algorithm'', JObj [(''name'', JStr ''mosa'')])]
       = Inl (IllegalArgumentException ''Invalid configuration. Unknown algorithm: ''
                (JObj [(''name'', JStr ''mosa'')]))
   \<and> getStoppingCondition (JObj [(''type'', JObj [(''toString'', JNum 1)])]) = Inl TypeError
   \<and> getStoppingCondition (JObj [(''type'', JArr [JStr ''optimal''])])
       = Inr OptimalSolutionStoppingCondition
   \<and> getStoppingCondition (JObj [(''type'', JObj [])])
       = Inl (ConfigException ''No stopping condition given'')"
  by (simp add: getAlgorithm_def dict_get_def loose_equals_def)

end
